theory Spec2Isabelle
  imports Complex_Main
begin

section \<open>The Markdown highlighter of qmarkdowntextedit\<close>

text \<open>
  A shallow embedding of \<^verbatim>\<open>markdownhighlighter.cpp\<close>. The class
  \<^verbatim>\<open>MarkdownHighlighter\<close> extends Qt's \<^verbatim>\<open>QSyntaxHighlighter\<close>; every
  member function becomes a function on an explicit highlighter state. What the
  highlighter inherits from Qt (block states, \<^verbatim>\<open>setFormat\<close>, string primitives) is
  modelled after Qt's documented behaviour. Indices are C++ \<^verbatim>\<open>int\<close>s; a
  \<^verbatim>\<open>QString\<close> holds fewer than \<open>2^31\<close> characters and every index computed
  below stays within a few characters of the text length, so they are modelled as
  unbounded integers.
\<close>

subsection \<open>Categories\<close>

text \<open>
  Modelled from the spec: the enumeration \<^verbatim>\<open>HighlighterState\<close> is declared in
  \<^verbatim>\<open>markdownhighlighter.h\<close>, which is not among the sources. The spec lists the
  categories and requires that the embedded-language categories are the ones at or above
  a reserved threshold (the code compares with 200); the code computes the heading level as
  \<^verbatim>\<open>H1 + count - 1\<close>, so \<open>H1\<close> to \<open>H6\<close> are consecutive; \<open>NoState\<close> is Qt's
  value \<open>-1\<close> of a block whose state was never set. Qt stores a block state as an
  \<^verbatim>\<open>int\<close>, so the enumerators are integer constants.
\<close>

definition NoState :: int where "NoState = -1"
definition Link :: int where "Link = 0"
definition Image :: int where "Image = 3"
definition CodeBlock :: int where "CodeBlock = 4"
definition Italic :: int where "Italic = 7"
definition Bold :: int where "Bold = 8"
definition List :: int where "List = 9"
definition Comment :: int where "Comment = 11"
definition H1 :: int where "H1 = 12"
definition H2 :: int where "H2 = 13"
definition H3 :: int where "H3 = 14"
definition H4 :: int where "H4 = 15"
definition H5 :: int where "H5 = 16"
definition H6 :: int where "H6 = 17"
definition BlockQuote :: int where "BlockQuote = 18"
definition HorizontalRuler :: int where "HorizontalRuler = 21"
definition Table :: int where "Table = 22"
definition InlineCodeBlock :: int where "InlineCodeBlock = 23"
definition MaskedSyntax :: int where "MaskedSyntax = 24"
definition FrontmatterBlock :: int where "FrontmatterBlock = 27"
definition TrailingSpace :: int where "TrailingSpace = 28"
definition CodeBlockEnd :: int where "CodeBlockEnd = 100"
definition HeadlineEnd :: int where "HeadlineEnd = 101"
definition FrontmatterBlockEnd :: int where "FrontmatterBlockEnd = 102"
definition CodeCpp :: int where "CodeCpp = 200"
definition CodeJs :: int where "CodeJs = 201"

lemmas HighlighterState_defs =
  NoState_def Link_def Image_def CodeBlock_def Italic_def Bold_def List_def Comment_def
  H1_def H2_def H3_def H4_def H5_def H6_def BlockQuote_def HorizontalRuler_def Table_def
  InlineCodeBlock_def MaskedSyntax_def FrontmatterBlock_def TrailingSpace_def
  CodeBlockEnd_def HeadlineEnd_def FrontmatterBlockEnd_def CodeCpp_def CodeJs_def

subsection \<open>Character formats\<close>

text \<open>
  A \<^verbatim>\<open>QTextCharFormat\<close> is a set of optional properties; two formats are equal when
  they carry the same properties. \<^verbatim>\<open>fontPointSize()\<close> of a format without that
  property is 0. Point sizes are only copied and compared with 0 by the highlighter.
\<close>

datatype QColor = darkGray | lightGray | gray | darkRed | darkYellow | darkGreen
  | darkBlue | cyan | magenta | QColor nat nat nat

record QTextCharFormat =
  foregroundP :: "QColor option"
  backgroundP :: "QColor option"
  fontPointSizeP :: "real option"
  fontWeightP :: "int option"
  fontItalicP :: "bool option"
  fontUnderlineP :: "bool option"
  fontFixedP :: "bool option"

definition QTextCharFormat0 :: QTextCharFormat where
  "QTextCharFormat0 = \<lparr>foregroundP = None, backgroundP = None, fontPointSizeP = None,
     fontWeightP = None, fontItalicP = None, fontUnderlineP = None, fontFixedP = None\<rparr>"

definition fontPointSize :: "QTextCharFormat \<Rightarrow> real" where
  "fontPointSize f = (case fontPointSizeP f of None \<Rightarrow> 0 | Some x \<Rightarrow> x)"

definition setFontPointSize :: "real \<Rightarrow> QTextCharFormat \<Rightarrow> QTextCharFormat" where
  "setFontPointSize x f = f\<lparr>fontPointSizeP := Some x\<rparr>"

definition setForeground :: "QColor \<Rightarrow> QTextCharFormat \<Rightarrow> QTextCharFormat" where
  "setForeground c f = f\<lparr>foregroundP := Some c\<rparr>"

definition setFontItalic :: "bool \<Rightarrow> QTextCharFormat \<Rightarrow> QTextCharFormat" where
  "setFontItalic b f = f\<lparr>fontItalicP := Some b\<rparr>"

subsection \<open>The highlighter state\<close>

text \<open>
  A \<^verbatim>\<open>QTextBlock\<close> is a handle on a line of the document: here the line number,
  valid when it lies inside the document. \<open>formatChanges\<close> is the vector in which
  \<^verbatim>\<open>QSyntaxHighlighter\<close> collects the formats of the block being highlighted, one
  entry per character.
\<close>

type_synonym QTextBlock = int

record block =
  blockText :: string
  blockUserState :: int

record highlighter =
  document :: "block list"
  currentBlock :: QTextBlock
  formatChanges :: "QTextCharFormat list"
  formats :: "int \<Rightarrow> QTextCharFormat"
  dirtyTextBlocks :: "QTextBlock list"
  highlightingFinished :: bool
  fullyHighlightedBlockQuote :: bool

definition isValid :: "QTextBlock \<Rightarrow> highlighter \<Rightarrow> bool" where
  "isValid b s \<longleftrightarrow> 0 \<le> b \<and> b < int (length (document s))"

definition previous :: "QTextBlock \<Rightarrow> QTextBlock" where
  "previous b = b - 1"

definition next_block :: "QTextBlock \<Rightarrow> QTextBlock" where
  "next_block b = b + 1"

definition firstBlock :: QTextBlock where
  "firstBlock = 0"

definition text_of :: "QTextBlock \<Rightarrow> highlighter \<Rightarrow> string" where
  "text_of b s = (if isValid b s then blockText (document s ! nat b) else [])"

definition userState :: "QTextBlock \<Rightarrow> highlighter \<Rightarrow> int" where
  "userState b s = (if isValid b s then blockUserState (document s ! nat b) else -1)"

definition setUserState :: "QTextBlock \<Rightarrow> int \<Rightarrow> highlighter \<Rightarrow> highlighter" where
  "setUserState b v s =
     (if isValid b s
      then s\<lparr>document := (document s)[nat b := (document s ! nat b)\<lparr>blockUserState := v\<rparr>]\<rparr>
      else s)"

definition currentBlockState :: "highlighter \<Rightarrow> int" where
  "currentBlockState s = userState (currentBlock s) s"

definition setCurrentBlockState :: "int \<Rightarrow> highlighter \<Rightarrow> highlighter" where
  "setCurrentBlockState v s = setUserState (currentBlock s) v s"

definition previousBlockState :: "highlighter \<Rightarrow> int" where
  "previousBlockState s =
     (if isValid (currentBlock s) s then userState (previous (currentBlock s)) s else -1)"

subsection \<open>String primitives of \<^verbatim>\<open>QString\<close>\<close>

definition startsWith :: "string \<Rightarrow> string \<Rightarrow> bool" where
  "startsWith t p \<longleftrightarrow> take (length p) t = p"

definition endsWith :: "string \<Rightarrow> string \<Rightarrow> bool" where
  "endsWith t p \<longleftrightarrow> length p \<le> length t \<and> drop (length t - length p) t = p"

fun indexOf_from :: "int \<Rightarrow> string \<Rightarrow> string \<Rightarrow> int" where
  "indexOf_from k [] p = (if p = [] then k else -1)"
| "indexOf_from k (c # cs) p =
     (if startsWith (c # cs) p then k else indexOf_from (k + 1) cs p)"

definition indexOf :: "string \<Rightarrow> string \<Rightarrow> int" where
  "indexOf t p = indexOf_from 0 t p"

definition contains :: "string \<Rightarrow> string \<Rightarrow> bool" where
  "contains t p \<longleftrightarrow> indexOf t p \<noteq> -1"

definition midRef :: "string \<Rightarrow> int \<Rightarrow> int \<Rightarrow> string" where
  "midRef t position n = take (nat n) (drop (nat position) t)"

definition isSpace :: "char \<Rightarrow> bool" where
  "isSpace c \<longleftrightarrow> c = CHR '' '' \<or> (9 \<le> (of_char c :: nat) \<and> (of_char c :: nat) \<le> 13)"

definition trimmed :: "string \<Rightarrow> string" where
  "trimmed t = rev (dropWhile isSpace (rev (dropWhile isSpace t)))"

text \<open>
  \<^verbatim>\<open>QChar::isLetter\<close> and \<^verbatim>\<open>QChar::isNumber\<close> test Unicode categories; on the ASCII
  characters of the texts considered here they are the letters and the decimal digits.
\<close>

definition isLetter :: "char \<Rightarrow> bool" where
  "isLetter c \<longleftrightarrow> (let k = (of_char c :: nat) in (65 \<le> k \<and> k \<le> 90) \<or> (97 \<le> k \<and> k \<le> 122))"

definition isNumber :: "char \<Rightarrow> bool" where
  "isNumber c \<longleftrightarrow> (let k = (of_char c :: nat) in 48 \<le> k \<and> k \<le> 57)"

subsection \<open>The queue of dirty blocks\<close>

definition addDirtyBlock :: "QTextBlock \<Rightarrow> highlighter \<Rightarrow> highlighter" where
  "addDirtyBlock b s =
     (if b \<notin> set (dirtyTextBlocks s)
      then s\<lparr>dirtyTextBlocks := dirtyTextBlocks s @ [b]\<rparr> else s)"

definition clearDirtyBlocks :: "highlighter \<Rightarrow> highlighter" where
  "clearDirtyBlocks s = s\<lparr>dirtyTextBlocks := []\<rparr>"

subsection \<open>Painting formats\<close>

text \<open>
  \<^verbatim>\<open>QSyntaxHighlighter::setFormat\<close> ignores a start outside the block and clips the
  end; it then assigns the format to each character from start to end.
\<close>

definition paint :: "int \<Rightarrow> int \<Rightarrow> QTextCharFormat \<Rightarrow> QTextCharFormat list \<Rightarrow> QTextCharFormat list" where
  "paint start count format fc =
     (let n = int (length fc) in
      if start < 0 \<or> start \<ge> n then fc
      else fold (\<lambda>i xs. xs[i := format]) [nat start ..< nat (min (start + count) n)] fc)"

definition setFormat :: "int \<Rightarrow> int \<Rightarrow> QTextCharFormat \<Rightarrow> highlighter \<Rightarrow> highlighter" where
  "setFormat start count format s = s\<lparr>formatChanges := paint start count format (formatChanges s)\<rparr>"

subsection \<open>The highlighting rules\<close>

text \<open>
  \<^verbatim>\<open>QRegularExpression\<close> is Qt's binding of PCRE and is not part of the sources. A
  pattern is kept as its source text, and the matcher is a parameter \<open>gm\<close> of every
  function that runs rules: \<open>gm pattern text\<close> is the list of matches that
  \<^verbatim>\<open>globalMatch\<close> iterates, each match giving start and length of its groups
  (group 0 first).
\<close>

type_synonym QRegularExpressionMatch = "(int \<times> int) list"
type_synonym globalMatch = "string \<Rightarrow> string \<Rightarrow> QRegularExpressionMatch list"

definition capturedStart :: "QRegularExpressionMatch \<Rightarrow> int \<Rightarrow> int" where
  "capturedStart m g = (if 0 \<le> g \<and> g < int (length m) then fst (m ! nat g) else -1)"

definition capturedLength :: "QRegularExpressionMatch \<Rightarrow> int \<Rightarrow> int" where
  "capturedLength m g = (if 0 \<le> g \<and> g < int (length m) then snd (m ! nat g) else 0)"

text \<open>
  Modelled from the spec: the structure \<^verbatim>\<open>HighlightingRule\<close> is declared in the
  missing header; its fields are the ones the spec lists for a rule, with the defaults
  "group 0" and "flags off" that the source relies on when it leaves a field unset.
\<close>

record HighlightingRule =
  pattern :: string
  state :: int
  capturingGroup :: int
  maskedGroup :: int
  useStateAsCurrentBlockState :: bool
  disableIfCurrentStateIsSet :: bool

definition HighlightingRule :: "int \<Rightarrow> HighlightingRule" where
  "HighlightingRule st = \<lparr>pattern = [], state = st, capturingGroup = 0, maskedGroup = 0,
     useStateAsCurrentBlockState = False, disableIfCurrentStateIsSet = False\<rparr>"

text \<open>The backslash, which a string literal cannot contain.\<close>

definition bs :: string where
  "bs = [CHR 0x5C]"

definition highlightingRulesPre :: "bool \<Rightarrow> HighlightingRule list" where
  "highlightingRulesPre fully =
    [ (HighlightingRule MaskedSyntax)
        \<lparr>pattern := ''^'' @ bs @ ''[.+?'' @ bs @ '']: '' @ bs @ ''w+://.+$''\<rparr>,
      (HighlightingRule List)
        \<lparr>pattern := ''^'' @ bs @ ''s*[-*+]'' @ bs @ ''s'', useStateAsCurrentBlockState := True\<rparr>,
      (HighlightingRule List)
        \<lparr>pattern := ''^'' @ bs @ ''s*'' @ bs @ ''d+'' @ bs @ ''.'' @ bs @ ''s'',
         useStateAsCurrentBlockState := True\<rparr>,
      (HighlightingRule BlockQuote)
        \<lparr>pattern := (if fully then ''^'' @ bs @ ''s*(>'' @ bs @ ''s*.+)''
                     else ''^'' @ bs @ ''s*(>'' @ bs @ ''s*)+'')\<rparr>,
      (HighlightingRule HorizontalRuler)
        \<lparr>pattern := ''^([*'' @ bs @ ''-_]'' @ bs @ ''s?){3,}$''\<rparr> ]"

definition highlightingRulesAfter :: "HighlightingRule list" where
  "highlightingRulesAfter =
    [ (HighlightingRule Italic)
        \<lparr>pattern := ''(?:^|[^'' @ bs @ ''*'' @ bs @ ''b])(?:'' @ bs @ ''*([^'' @ bs @ ''* ][^''
           @ bs @ ''*]*?)'' @ bs @ ''*)(?:[^'' @ bs @ ''*'' @ bs @ ''b]|$)'', capturingGroup := 1\<rparr>,
      (HighlightingRule Italic)
        \<lparr>pattern := bs @ ''b_([^_]+)_'' @ bs @ ''b'', capturingGroup := 1\<rparr>,
      (HighlightingRule Bold)
        \<lparr>pattern := bs @ ''B'' @ bs @ ''*{2}(.+?)'' @ bs @ ''*{2}'' @ bs @ ''B'', capturingGroup := 1\<rparr>,
      (HighlightingRule Bold)
        \<lparr>pattern := bs @ ''b__(.+?)__'' @ bs @ ''b'', capturingGroup := 1\<rparr>,
      (HighlightingRule MaskedSyntax)
        \<lparr>pattern := bs @ ''~{2}(.+?)'' @ bs @ ''~{2}'', capturingGroup := 1\<rparr>,
      (HighlightingRule Link)
        \<lparr>pattern := bs @ ''b'' @ bs @ ''w+?:'' @ bs @ ''/'' @ bs @ ''/[^'' @ bs @ ''s]+'',
         capturingGroup := 0\<rparr>,
      (HighlightingRule Link)
        \<lparr>pattern := ''<('' @ bs @ ''w+?:'' @ bs @ ''/'' @ bs @ ''/[^'' @ bs @ ''s]+)>'',
         capturingGroup := 1\<rparr>,
      (HighlightingRule Link)
        \<lparr>pattern := ''<([^'' @ bs @ ''s`][^`]*?'' @ bs @ ''.[^`]*?[^'' @ bs @ ''s`])>'',
         capturingGroup := 1\<rparr>,
      (HighlightingRule Link)
        \<lparr>pattern := bs @ ''[([^'' @ bs @ ''['' @ bs @ '']]+)'' @ bs @ '']'' @ bs @ ''(('' @ bs
           @ ''S+|.+?)'' @ bs @ '')'' @ bs @ ''B'', capturingGroup := 1\<rparr>,
      (HighlightingRule Link)
        \<lparr>pattern := bs @ ''['' @ bs @ '']'' @ bs @ ''((.+?)'' @ bs @ '')'', capturingGroup := 1\<rparr>,
      (HighlightingRule Link)
        \<lparr>pattern := ''<(.+?@.+?)>'', capturingGroup := 1\<rparr>,
      (HighlightingRule Link)
        \<lparr>pattern := bs @ ''[(.+?)'' @ bs @ '']'' @ bs @ ''[.+?'' @ bs @ '']'', capturingGroup := 1\<rparr>,
      (HighlightingRule Image)
        \<lparr>pattern := ''!'' @ bs @ ''[(.+?)'' @ bs @ '']'' @ bs @ ''(.+?'' @ bs @ '')'',
         capturingGroup := 1\<rparr>,
      (HighlightingRule Image)
        \<lparr>pattern := ''!'' @ bs @ ''['' @ bs @ '']'' @ bs @ ''((.+?)'' @ bs @ '')'',
         capturingGroup := 1\<rparr>,
      (HighlightingRule Link)
        \<lparr>pattern := bs @ ''[!'' @ bs @ ''[(.+?)'' @ bs @ '']'' @ bs @ ''(.+?'' @ bs @ '')'' @ bs
           @ '']'' @ bs @ ''(.+?'' @ bs @ '')'', capturingGroup := 1\<rparr>,
      (HighlightingRule Link)
        \<lparr>pattern := bs @ ''[!'' @ bs @ ''['' @ bs @ '']'' @ bs @ ''(.+?'' @ bs @ '')'' @ bs
           @ '']'' @ bs @ ''((.+?)'' @ bs @ '')'', capturingGroup := 1\<rparr>,
      (HighlightingRule TrailingSpace)
        \<lparr>pattern := ''( +)$'', capturingGroup := 1\<rparr>,
      (HighlightingRule InlineCodeBlock)
        \<lparr>pattern := ''`(.+?)`'', capturingGroup := 1\<rparr>,
      (HighlightingRule CodeBlock)
        \<lparr>pattern := ''^(('' @ bs @ ''t)|( {4,})).+$'', disableIfCurrentStateIsSet := True\<rparr>,
      (HighlightingRule Comment)
        \<lparr>pattern := ''<!'' @ bs @ ''-'' @ bs @ ''-(.+?)'' @ bs @ ''-'' @ bs @ ''->'',
         capturingGroup := 1\<rparr>,
      (HighlightingRule Comment)
        \<lparr>pattern := ''^'' @ bs @ ''[.+?'' @ bs @ '']: # '' @ bs @ ''(.+?'' @ bs @ '')$'',
         capturingGroup := 1\<rparr>,
      (HighlightingRule Table)
        \<lparr>pattern := ''^'' @ bs @ ''|.+?'' @ bs @ ''|$''\<rparr> ]"

definition isHeadingState :: "int \<Rightarrow> bool" where
  "isHeadingState st \<longleftrightarrow> st = H1 \<or> st = H2 \<or> st = H3 \<or> st = H4 \<or> st = H5 \<or> st = H6"

definition setHeadingStyles ::
  "QTextCharFormat \<Rightarrow> QRegularExpressionMatch \<Rightarrow> int \<Rightarrow> highlighter \<Rightarrow> highlighter" where
  "setHeadingStyles format m capturedGroup s =
     (let st = currentBlockState s;
          f = (if st = H1 then formats s H1 else if st = H2 then formats s H2
               else if st = H3 then formats s H3 else if st = H4 then formats s H4
               else if st = H5 then formats s H5 else formats s H6)
      in if format = formats s Italic then
           setFormat (capturedStart m capturedGroup) (capturedLength m capturedGroup)
             (setFontItalic True f) s
         else if format = formats s Bold then
           setFormat (capturedStart m capturedGroup) (capturedLength m capturedGroup) f s
         else if format = formats s Link then
           (let link = setFontPointSize (fontPointSize f) (formats s Link)
            in if capturedGroup = 1
               then setFormat (capturedStart m capturedGroup) (capturedLength m capturedGroup) link s
               else s)
         else s)"

text \<open>The body of the loop over the matches of one rule.\<close>

definition formatMatch :: "HighlightingRule \<Rightarrow> QRegularExpressionMatch \<Rightarrow> highlighter \<Rightarrow> highlighter" where
  "formatMatch rule m s =
     (let maskedFormat = formats s MaskedSyntax;
          format = formats s (state rule);
          inHeading = (isHeadingState (currentBlockState s) \<and> format \<noteq> formats s InlineCodeBlock);
          s1 = (if capturingGroup rule > 0 then
                  (let currentMaskedFormat =
                         (if fontPointSize format > 0
                          then setFontPointSize (fontPointSize format) maskedFormat
                          else maskedFormat)
                   in if inHeading then s
                      else setFormat (capturedStart m (maskedGroup rule))
                             (capturedLength m (maskedGroup rule)) currentMaskedFormat s)
                else s)
      in if inHeading then setHeadingStyles format m (capturingGroup rule) s1
         else setFormat (capturedStart m (capturingGroup rule))
                (capturedLength m (capturingGroup rule)) format s1)"

text \<open>The body of the loop over the rules.\<close>

definition applyRule :: "globalMatch \<Rightarrow> string \<Rightarrow> HighlightingRule \<Rightarrow> highlighter \<Rightarrow> highlighter" where
  "applyRule gm text rule s =
     (if disableIfCurrentStateIsSet rule \<and> currentBlockState s \<noteq> NoState then s
      else
        (let matches = gm (pattern rule) text;
             s1 = (if matches \<noteq> [] \<and> useStateAsCurrentBlockState rule
                   then setCurrentBlockState (state rule) s else s)
         in fold (formatMatch rule) matches s1))"

definition highlightAdditionalRules ::
  "globalMatch \<Rightarrow> HighlightingRule list \<Rightarrow> string \<Rightarrow> highlighter \<Rightarrow> highlighter" where
  "highlightAdditionalRules gm rules text s = fold (applyRule gm text) rules s"

subsection \<open>Headlines\<close>

definition headingFound :: "string \<Rightarrow> bool" where
  "headingFound text \<longleftrightarrow>
     startsWith text ''# '' \<or> startsWith text ''## '' \<or> startsWith text ''### '' \<or>
     startsWith text ''#### '' \<or> startsWith text ''##### '' \<or> startsWith text ''###### ''"

text \<open>The number of \<open>#\<close> among the first six characters.\<close>

definition countHashes :: "string \<Rightarrow> int" where
  "countHashes text = int (length (filter (\<lambda>c. c = CHR ''#'') (take 6 text)))"

definition hasOnlyHeadChars :: "string \<Rightarrow> char \<Rightarrow> bool" where
  "hasOnlyHeadChars txt c \<longleftrightarrow> txt \<noteq> [] \<and> list_all (\<lambda>x. x = c) txt"

text \<open>\<^verbatim>\<open>setCurrentBlockMargin\<close> returns at once: the margins are disabled.\<close>

definition setCurrentBlockMargin :: "int \<Rightarrow> highlighter \<Rightarrow> highlighter" where
  "setCurrentBlockMargin st s = s"

text \<open>
  The two branches for a line of \<open>=\<close> and a line of \<open>-\<close> differ only in the
  level, \<open>H1\<close> or \<open>H2\<close>.
\<close>

definition setextUnderline :: "int \<Rightarrow> string \<Rightarrow> highlighter \<Rightarrow> highlighter" where
  "setextUnderline level text s =
     (let previousBlock = previous (currentBlock s);
          previousText = text_of previousBlock s
      in if (previousBlockState s = level \<or> previousBlockState s = NoState)
            \<and> length previousText > 0
         then
           (let currentMaskedFormat =
                  setFontPointSize (fontPointSize (formats s level)) (formats s MaskedSyntax);
                s1 = setFormat 0 (int (length text)) currentMaskedFormat s;
                s2 = setCurrentBlockState HeadlineEnd s1;
                s3 = setUserState previousBlock level s2;
                s4 = setCurrentBlockMargin level s3
            in addDirtyBlock previousBlock s4)
         else s)"

definition highlightHeadline :: "string \<Rightarrow> highlighter \<Rightarrow> highlighter" where
  "highlightHeadline text s =
     (if headingFound text then
        (let count = countHashes text;
             st = H1 + count - 1;
             currentMaskedFormat =
               setFontPointSize (fontPointSize (formats s st)) (formats s MaskedSyntax);
             s1 = setFormat 0 (int (length text)) currentMaskedFormat s;
             s2 = setFormat count (int (length text) - count) (formats s st) s1;
             s3 = setCurrentBlockMargin st s2;
             s4 = setCurrentBlockState st s3
         in setUserState (currentBlock s4) st s4)
      else if hasOnlyHeadChars text (CHR ''='') then setextUnderline H1 text s
      else if hasOnlyHeadChars text (CHR ''-'') then setextUnderline H2 text s
      else
        (let nextBlockText = text_of (next_block (currentBlock s)) s;
             s1 = (if hasOnlyHeadChars nextBlockText (CHR ''='') then
                     setUserState (currentBlock s) H1
                       (setCurrentBlockState H1 (setFormat 0 (int (length text)) (formats s H1) s))
                   else s)
         in if hasOnlyHeadChars nextBlockText (CHR ''-'') then
              setUserState (currentBlock s1) H2
                (setCurrentBlockState H2 (setFormat 0 (int (length text)) (formats s1 H2) s1))
            else s1))"

subsection \<open>Comment blocks and front matter\<close>

definition highlightCommentBlock :: "string \<Rightarrow> highlighter \<Rightarrow> highlighter" where
  "highlightCommentBlock text0 s =
     (let text = trimmed text0; startText = ''<!--''; endText = ''-->''
      in if startsWith text startText \<and> contains text endText then s
         else if startsWith text startText \<or>
                 (\<not> endsWith text endText \<and> previousBlockState s = Comment) then
           setFormat 0 (int (length text)) (formats s Comment) (setCurrentBlockState Comment s)
         else if endsWith text endText then
           setFormat 0 (int (length text)) (formats s Comment) s
         else s)"

definition highlightFrontmatterBlock :: "string \<Rightarrow> highlighter \<Rightarrow> highlighter" where
  "highlightFrontmatterBlock text s =
     (if text_of firstBlock s \<noteq> ''---'' then s
      else if text = ''---'' then
        (let foundEnd = (previousBlockState s = FrontmatterBlock)
         in if \<not> foundEnd \<and> firstBlock \<noteq> currentBlock s then s
            else setFormat 0 (int (length text)) (formats s MaskedSyntax)
                   (setCurrentBlockState
                      (if foundEnd then FrontmatterBlockEnd else FrontmatterBlock) s))
      else if previousBlockState s = FrontmatterBlock then
        setFormat 0 (int (length text)) (formats s MaskedSyntax)
          (setCurrentBlockState FrontmatterBlock s)
      else s)"

subsection \<open>Code blocks and the scanner of embedded languages\<close>

text \<open>
  \<^verbatim>\<open>text[i]\<close> on a constant \<^verbatim>\<open>QString\<close> is \<^verbatim>\<open>at(i)\<close>, which must not be
  called with an index outside the string: such a read is an error of the model.
\<close>

datatype error = IndexOutOfRange

definition at' :: "string \<Rightarrow> int \<Rightarrow> error + char" where
  "at' t i = (if 0 \<le> i \<and> i < int (length t) then Inr (t ! nat i) else Inl IndexOutOfRange)"

text \<open>
  The local variables of \<^verbatim>\<open>highlightSyntax\<close>: the position \<open>i\<close>, the format
  \<open>f\<close>, of which only the foreground changes, and the formats painted so far. A step
  either goes on or leaves \<^verbatim>\<open>highlightSyntax\<close> by \<^verbatim>\<open>return\<close>.
\<close>

record scanner =
  scan_i :: int
  scan_f :: QTextCharFormat
  scan_fc :: "QTextCharFormat list"

datatype 'a flow = Continue 'a | Return 'a

definition loadCppData :: "string list \<times> string list \<times> string list" where
  "loadCppData =
    ( [''QString'', ''QList'', ''QVector'', ''QHash'', ''QMap'',
       ''int'', ''float'', ''string'', ''double'', ''long'', ''vector'',
       ''short'', ''char'', ''void'', ''bool'', ''wchar_t'',
       ''class'', ''struct'', ''union'', ''enum''],
      [''while'', ''if'', ''for'', ''do'', ''return'', ''else'', ''switch'',
       ''case'', ''break'', ''continue'',
       ''namespace'', ''using'',
       ''unsigned'', ''const'', ''static'', ''mutable'', ''autoasm '', ''volatile'',
       ''static_cast'', ''dynamic_cast'', ''reinterpret_cast'', ''const_cast'',
       ''nullptr'',
       ''public'', ''private'', ''protected'', ''signal'', ''slot'',
       ''new'', ''delete'', ''operator'', ''template'', ''this'',
       ''false'', ''true'', ''explicit '', ''sizeof'',
       ''try'', ''catch'', ''throw''],
      [''ifndef'', ''ifdef'', ''include'', ''define'', ''endif''] )"

text \<open>\<^verbatim>\<open>text[after].isLetter() || text[before].isLetter()\<close>\<close>

definition besideLetter :: "string \<Rightarrow> int \<Rightarrow> int \<Rightarrow> error + bool" where
  "besideLetter text after before =
     (case at' text after of Inl e \<Rightarrow> Inl e
      | Inr a \<Rightarrow> if isLetter a then Inr True
                else (case at' text before of Inl e \<Rightarrow> Inl e | Inr b \<Rightarrow> Inr (isLetter b)))"

text \<open>The inner loop of a string literal; it yields the new \<open>i\<close> and \<open>cnt\<close>.\<close>

function stringLoop :: "string \<Rightarrow> int \<Rightarrow> int \<Rightarrow> error + int \<times> int" where
  "stringLoop text i cnt =
     (if i < int (length text) then
        (case at' text i of Inl e \<Rightarrow> Inl e
         | Inr c \<Rightarrow>
             if c = CHR 0x22 then Inr (i + 1, cnt + 1)
             else if (i + 1) + 1 \<ge> int (length text) then Inr (i + 1, cnt + 1 + 1)
             else stringLoop text (i + 1) (cnt + 1))
      else Inr (i, cnt))"
  by pat_completeness auto
termination
  by (relation "measure (\<lambda>(text, i, cnt). nat (int (length text) - i))") auto

declare stringLoop.simps [simp del]

text \<open>The inner loop of a character literal.\<close>

function charLoop :: "string \<Rightarrow> int \<Rightarrow> int \<Rightarrow> error + int \<times> int" where
  "charLoop text i cnt =
     (if i < int (length text) then
        (case at' text i of Inl e \<Rightarrow> Inl e
         | Inr c \<Rightarrow>
             if c = CHR 0x27 then Inr (i + 1, cnt + 1)
             else if i + 1 \<ge> int (length text) then Inr (i, cnt + 1)
             else charLoop text (i + 1) (cnt + 1))
      else Inr (i, cnt))"
  by pat_completeness auto
termination
  by (relation "measure (\<lambda>(text, i, cnt). nat (int (length text) - i))") auto

declare charLoop.simps [simp del]

text \<open>The end of the body of the \<^verbatim>\<open>while\<close> loop.\<close>

definition endOfBody :: "string \<Rightarrow> scanner \<Rightarrow> error + scanner flow" where
  "endOfBody text sc =
     (if scan_i sc + 1 \<ge> int (length text) then Inr (Return sc)
      else Inr (Continue (sc\<lparr>scan_i := scan_i sc + 1\<rparr>)))"

text \<open>The branches for a digit, a double quote and a single quote; \<open>c\<close> is \<^verbatim>\<open>text[i]\<close>.\<close>

definition literals :: "string \<Rightarrow> char \<Rightarrow> scanner \<Rightarrow> error + scanner flow" where
  "literals text c sc =
     (let i = scan_i sc; len = int (length text)
      in if isNumber c then
           (case (if (i + 1 < len \<and> i - 1 > 0) then besideLetter text (i + 1) (i - 1)
                  else Inr False) of
              Inl e \<Rightarrow> Inl e
            | Inr True \<Rightarrow> Inr (Continue (sc\<lparr>scan_i := i + 1\<rparr>))
            | Inr False \<Rightarrow>
                (let f = setForeground darkYellow (scan_f sc)
                 in endOfBody text (sc\<lparr>scan_f := f, scan_fc := paint i 1 f (scan_fc sc)\<rparr>)))
         else if c = CHR 0x22 then
           (let pos = i; f = setForeground darkGreen (scan_f sc); i1 = i + 1
            in if i1 + 1 \<ge> len then Inr (Return (sc\<lparr>scan_i := i1, scan_f := f\<rparr>))
               else (case stringLoop text i1 1 of Inl e \<Rightarrow> Inl e
                     | Inr (i2, cnt) \<Rightarrow>
                         endOfBody text
                           (sc\<lparr>scan_i := i2, scan_f := f, scan_fc := paint pos cnt f (scan_fc sc)\<rparr>)))
         else if c = CHR 0x27 then
           (let pos = i; f = setForeground darkGreen (scan_f sc); i1 = i + 1
            in if i1 + 1 \<ge> len then Inr (Return (sc\<lparr>scan_i := i1, scan_f := f\<rparr>))
               else (case charLoop text i1 1 of Inl e \<Rightarrow> Inl e
                     | Inr (i2, cnt) \<Rightarrow>
                         endOfBody text
                           (sc\<lparr>scan_i := i2, scan_f := f, scan_fc := paint pos cnt f (scan_fc sc)\<rparr>)))
         else endOfBody text sc)"

text \<open>
  The body of the \<^verbatim>\<open>while\<close> loop. After a slash the function returns whatever follows.
  The second test for a slash, "multi comment", is kept as the source has it.
\<close>

definition blockComment :: "string \<Rightarrow> scanner \<Rightarrow> scanner" where
  "blockComment text sc =
     (let i = scan_i sc; next = indexOf text ''*/''; f = setForeground darkGray (scan_f sc)
      in if next = -1
         then sc\<lparr>scan_f := f, scan_fc := paint i (int (length text)) f (scan_fc sc)\<rparr>
         else sc\<lparr>scan_f := f, scan_fc := paint i (next + 2 - i) f (scan_fc sc)\<rparr>)"

definition whileBody :: "string \<Rightarrow> char \<Rightarrow> scanner \<Rightarrow> error + scanner flow" where
  "whileBody text c sc =
     (let i = scan_i sc; len = int (length text)
      in if c = CHR ''/'' then
           (if i + 1 < len then
              (case at' text (i + 1) of Inl e \<Rightarrow> Inl e
               | Inr d \<Rightarrow>
                   if d = CHR ''/'' then
                     (let f = setForeground darkGray (scan_f sc)
                      in Inr (Return (sc\<lparr>scan_f := f, scan_fc := paint i len f (scan_fc sc)\<rparr>)))
                   else if d = CHR ''*'' then
                     (let sc1 = blockComment text sc
                      in if indexOf text ''*/'' = -1 then Inr (Return sc1)
                         else Inr (Return (sc1\<lparr>scan_i := indexOf text ''*/'' + 2\<rparr>)))
                   else Inr (Return sc))
            else Inr (Return sc))
         else if c = CHR ''/'' then
           (case at' text (i + 1) of Inl e \<Rightarrow> Inl e
            | Inr d \<Rightarrow> if d = CHR ''*'' then Inr (Return (blockComment text sc))
                       else literals text c sc)
         else literals text c sc)"

lemma stringLoop_progress: "stringLoop t i cnt = Inr (i2, cnt2) \<Longrightarrow> i \<le> i2"
proof (induction t i cnt arbitrary: i2 cnt2 rule: stringLoop.induct)
  case (1 t i cnt)
  show ?case
  proof (cases "at' t i")
    case (Inl e)
    with "1.prems" show ?thesis
      by (subst (asm) stringLoop.simps) (simp split: if_splits)
  next
    case (Inr c)
    show ?thesis
    proof (cases "i < int (length t) \<and> c \<noteq> CHR 0x22 \<and> \<not> (i + 1) + 1 \<ge> int (length t)")
      case False
      with "1.prems" Inr show ?thesis
        by (subst (asm) stringLoop.simps) (auto split: if_splits)
    next
      case True
      with "1.prems" Inr have "stringLoop t (i + 1) (cnt + 1) = Inr (i2, cnt2)"
        by (subst (asm) stringLoop.simps) (simp split: if_splits)
      with "1.IH"[of c i2 cnt2] True Inr have "i + 1 \<le> i2" by simp
      then show ?thesis by simp
    qed
  qed
qed

lemma charLoop_progress: "charLoop t i cnt = Inr (i2, cnt2) \<Longrightarrow> i \<le> i2"
proof (induction t i cnt arbitrary: i2 cnt2 rule: charLoop.induct)
  case (1 t i cnt)
  show ?case
  proof (cases "at' t i")
    case (Inl e)
    with "1.prems" show ?thesis
      by (subst (asm) charLoop.simps) (simp split: if_splits)
  next
    case (Inr c)
    show ?thesis
    proof (cases "i < int (length t) \<and> c \<noteq> CHR 0x27 \<and> \<not> i + 1 \<ge> int (length t)")
      case False
      with "1.prems" Inr show ?thesis
        by (subst (asm) charLoop.simps) (auto split: if_splits)
    next
      case True
      with "1.prems" Inr have "charLoop t (i + 1) (cnt + 1) = Inr (i2, cnt2)"
        by (subst (asm) charLoop.simps) (simp split: if_splits)
      with "1.IH"[of c i2 cnt2] True Inr have "i + 1 \<le> i2" by simp
      then show ?thesis by simp
    qed
  qed
qed

lemma endOfBody_progress: "endOfBody text sc = Inr (Continue sc') \<Longrightarrow> scan_i sc < scan_i sc'"
  by (auto simp: endOfBody_def split: if_splits)

lemma literals_progress: "literals text c sc = Inr (Continue sc') \<Longrightarrow> scan_i sc < scan_i sc'"
  unfolding literals_def Let_def
  by (auto split: if_splits sum.splits bool.splits prod.splits
      dest!: endOfBody_progress stringLoop_progress charLoop_progress)

lemma whileBody_progress: "whileBody text c sc = Inr (Continue sc') \<Longrightarrow> scan_i sc < scan_i sc'"
  unfolding whileBody_def Let_def
  by (auto split: if_splits sum.splits dest: literals_progress)

function whileNotLetter :: "string \<Rightarrow> scanner \<Rightarrow> error + scanner flow" where
  "whileNotLetter text sc =
     (case at' text (scan_i sc) of Inl e \<Rightarrow> Inl e
      | Inr c \<Rightarrow>
          if isLetter c then Inr (Continue sc)
          else (case whileBody text c sc of Inl e \<Rightarrow> Inl e
                | Inr (Return sc') \<Rightarrow> Inr (Return sc')
                | Inr (Continue sc') \<Rightarrow> whileNotLetter text sc'))"
  by pat_completeness auto
termination
proof (relation "measure (\<lambda>(text, sc). nat (int (length text) - scan_i sc))")
  show "wf (measure (\<lambda>(text, sc). nat (int (length text) - scan_i sc)))"
    by simp
next
  fix t :: string and sc sc' :: scanner and c :: char and r :: "scanner flow"
  assume "at' t (scan_i sc) = Inr c" and "whileBody t c sc = Inr r" and "r = Continue sc'"
  then have "scan_i sc < int (length t)" and "scan_i sc < scan_i sc'"
    by (auto simp: at'_def split: if_splits dest: whileBody_progress)
  then show "((t, sc'), (t, sc)) \<in> measure (\<lambda>(text, sc). nat (int (length text) - scan_i sc))"
    by simp
qed

declare whileNotLetter.simps [simp del]

lemma whileNotLetter_progress:
  "whileNotLetter t sc = Inr (Continue sc') \<Longrightarrow> scan_i sc \<le> scan_i sc'"
proof (induction t sc rule: whileNotLetter.induct)
  case (1 t sc)
  show ?case
  proof (cases "at' t (scan_i sc)")
    case (Inl e)
    with "1.prems" show ?thesis
      by (subst (asm) whileNotLetter.simps) simp
  next
    case c: (Inr c)
    show ?thesis
    proof (cases "isLetter c")
      case True
      with "1.prems" c show ?thesis
        by (subst (asm) whileNotLetter.simps) simp
    next
      case False
      show ?thesis
      proof (cases "whileBody t c sc")
        case (Inl e)
        with "1.prems" c False show ?thesis
          by (subst (asm) whileNotLetter.simps) simp
      next
        case r: (Inr r)
        show ?thesis
        proof (cases r)
          case (Return sc1)
          with "1.prems" c False r show ?thesis
            by (subst (asm) whileNotLetter.simps) simp
        next
          case (Continue sc1)
          with "1.prems" c False r have "whileNotLetter t sc1 = Inr (Continue sc')"
            by (subst (asm) whileNotLetter.simps) simp
          with "1.IH"[OF c False r Continue] have "scan_i sc1 \<le> scan_i sc'" .
          moreover from r Continue have "scan_i sc < scan_i sc1"
            by (auto dest: whileBody_progress)
          ultimately show ?thesis by simp
        qed
      qed
    qed
  qed
qed

text \<open>
  One of the three loops over a table of words. A word found in the middle of a longer
  word is skipped by \<^verbatim>\<open>continue\<close>; any other word found is painted in the colour of
  its table and \<open>i\<close> moves behind it, while the loop goes on with the next word.
\<close>

fun tokenLoop :: "QColor \<Rightarrow> string \<Rightarrow> string list \<Rightarrow> scanner \<Rightarrow> error + scanner" where
  "tokenLoop col text [] sc = Inr sc"
| "tokenLoop col text (w # ws) sc =
     (let i = scan_i sc; n = int (length w)
      in if w = midRef text i n then
           (case (if i + n < int (length text) \<and> i > 0
                  then besideLetter text (i + n) (i - 1) else Inr False) of
              Inl e \<Rightarrow> Inl e
            | Inr True \<Rightarrow> tokenLoop col text ws sc
            | Inr False \<Rightarrow>
                (let f = setForeground col (scan_f sc)
                 in tokenLoop col text ws
                      (sc\<lparr>scan_i := i + n, scan_f := f, scan_fc := paint i n f (scan_fc sc)\<rparr>)))
         else tokenLoop col text ws sc)"

lemma tokenLoop_progress: "tokenLoop col t ws sc = Inr sc' \<Longrightarrow> scan_i sc \<le> scan_i sc'"
proof (induction ws arbitrary: sc)
  case Nil
  then show ?case by simp
next
  case (Cons w ws)
  from Cons.prems show ?case
    by (auto simp: Let_def split: if_splits sum.splits bool.splits dest!: Cons.IH)
qed

text \<open>The outer \<^verbatim>\<open>for\<close> loop of \<^verbatim>\<open>highlightSyntax\<close>.\<close>

function forLoop ::
  "string \<Rightarrow> string list \<times> string list \<times> string list \<Rightarrow> scanner \<Rightarrow> error + scanner" where
  "forLoop text tables sc =
     (if scan_i sc < int (length text) then
        (case whileNotLetter text sc of Inl e \<Rightarrow> Inl e
         | Inr (Return sc') \<Rightarrow> Inr sc'
         | Inr (Continue sc1) \<Rightarrow>
             (case tokenLoop darkBlue text (fst tables) sc1 of Inl e \<Rightarrow> Inl e
              | Inr sc2 \<Rightarrow>
                  (case tokenLoop cyan text (fst (snd tables)) sc2 of Inl e \<Rightarrow> Inl e
                   | Inr sc3 \<Rightarrow>
                       (case tokenLoop magenta text (snd (snd tables)) sc3 of Inl e \<Rightarrow> Inl e
                        | Inr sc4 \<Rightarrow> forLoop text tables (sc4\<lparr>scan_i := scan_i sc4 + 1\<rparr>)))))
      else Inr sc)"
  by pat_completeness auto
termination
proof (relation "measure (\<lambda>(text, tables, sc). nat (int (length text) - scan_i sc))")
  show "wf (measure (\<lambda>(text, tables, sc). nat (int (length text) - scan_i sc)))"
    by simp
next
  fix t :: string and tables :: "string list \<times> string list \<times> string list"
    and sc sc1 sc2 sc3 sc4 :: scanner and r :: "scanner flow"
  assume "scan_i sc < int (length t)" and "whileNotLetter t sc = Inr r" and "r = Continue sc1"
    and "tokenLoop darkBlue t (fst tables) sc1 = Inr sc2"
    and "tokenLoop cyan t (fst (snd tables)) sc2 = Inr sc3"
    and "tokenLoop magenta t (snd (snd tables)) sc3 = Inr sc4"
  then have "scan_i sc < int (length t)" and "scan_i sc \<le> scan_i sc4"
    by (auto dest!: whileNotLetter_progress tokenLoop_progress)
  then show "((t, tables, sc4\<lparr>scan_i := scan_i sc4 + 1\<rparr>), (t, tables, sc))
      \<in> measure (\<lambda>(text, tables, sc). nat (int (length text) - scan_i sc))"
    by simp
qed

declare forLoop.simps [simp del]

definition highlightSyntax :: "string \<Rightarrow> highlighter \<Rightarrow> error + highlighter" where
  "highlightSyntax text s =
     (if text = [] then Inr s
      else
        (let tables = (if currentBlockState s = CodeCpp then loadCppData else ([], [], []));
             f = formats s CodeBlock;
             s1 = setFormat 0 (int (length text)) f s
         in case forLoop text tables \<lparr>scan_i = 0, scan_f = f, scan_fc = formatChanges s1\<rparr> of
              Inl e \<Rightarrow> Inl e
            | Inr sc \<Rightarrow> Inr (s1\<lparr>formatChanges := scan_fc sc\<rparr>)))"

definition highlightCodeBlock :: "string \<Rightarrow> highlighter \<Rightarrow> error + highlighter" where
  "highlightCodeBlock text s =
     (if startsWith text ''```'' then
        (let s1 = (if previousBlockState s \<noteq> CodeBlock \<and> previousBlockState s < 200 then
                     (let lang = midRef text 3 (int (length text))
                      in if lang = ''cpp'' then setCurrentBlockState CodeCpp s
                         else if lang = ''js'' then setCurrentBlockState CodeJs s
                         else if text = ''```'' then setCurrentBlockState CodeBlock s
                         else setCurrentBlockState CodeBlock s)
                   else if previousBlockState s = CodeBlock \<or> previousBlockState s \<ge> 200 then
                     setCurrentBlockState CodeBlockEnd s
                   else s);
             maskedFormat =
               setFontPointSize (fontPointSize (formats s1 CodeBlock)) (formats s1 MaskedSyntax);
             s2 = s1\<lparr>formats := (formats s1)(MaskedSyntax := maskedFormat)\<rparr>
         in Inr (setFormat 0 (int (length text)) maskedFormat s2))
      else if previousBlockState s = CodeBlock \<or> previousBlockState s = CodeCpp then
        (if previousBlockState s = CodeCpp then
           highlightSyntax text (setCurrentBlockState CodeCpp s)
         else if previousBlockState s = CodeJs then
           highlightSyntax text (setCurrentBlockState CodeJs s)
         else
           Inr (setCurrentBlockState CodeBlock
                  (setFormat 0 (int (length text)) (formats s CodeBlock) s)))
      else Inr s)"

subsection \<open>Highlighting a block\<close>

definition highlightMarkdown :: "globalMatch \<Rightarrow> string \<Rightarrow> highlighter \<Rightarrow> error + highlighter" where
  "highlightMarkdown gm text s =
     (let s1 = (if text \<noteq> [] then
                  highlightAdditionalRules gm highlightingRulesAfter text
                    (highlightHeadline text
                      (highlightAdditionalRules gm
                         (highlightingRulesPre (fullyHighlightedBlockQuote s)) text s))
                else s)
      in case highlightCodeBlock text (highlightCommentBlock text s1) of
           Inl e \<Rightarrow> Inl e
         | Inr s2 \<Rightarrow> Inr (highlightFrontmatterBlock text s2))"

definition highlightBlock :: "globalMatch \<Rightarrow> string \<Rightarrow> highlighter \<Rightarrow> error + highlighter" where
  "highlightBlock gm text s =
     (case highlightMarkdown gm text
             (setUserState (currentBlock s) NoState (setCurrentBlockState NoState s)) of
        Inl e \<Rightarrow> Inl e
      | Inr s' \<Rightarrow> Inr (s'\<lparr>highlightingFinished := True\<rparr>))"

text \<open>
  \<^verbatim>\<open>QSyntaxHighlighter::rehighlightBlock\<close> makes the block the current one, clears
  the vector of formats to the length of its text and calls \<^verbatim>\<open>highlightBlock\<close> with
  its text; it does nothing for an invalid block. Qt goes on with the following blocks
  as long as the state of the block just highlighted has changed; that continuation only
  adds calls of \<^verbatim>\<open>highlightBlock\<close> on other blocks and is left out here.
\<close>

definition rehighlightBlock :: "globalMatch \<Rightarrow> QTextBlock \<Rightarrow> highlighter \<Rightarrow> error + highlighter" where
  "rehighlightBlock gm b s =
     (if isValid b s then
        highlightBlock gm (text_of b s)
          (s\<lparr>currentBlock := b,
             formatChanges := replicate (length (text_of b s)) QTextCharFormat0\<rparr>)
      else Inr s)"


subsection \<open>Auxiliary facts\<close>

lemma length_paint [simp]: "length (paint a c f fc) = length fc"
proof -
  have "length (fold (\<lambda>i xs. xs[i := f]) is fc) = length fc" for "is"
    by (induction "is" arbitrary: fc) auto
  then show ?thesis by (simp add: paint_def Let_def)
qed

lemma fold_update_nth:
  "k < length fc \<Longrightarrow> fold (\<lambda>i xs. xs[i := f]) [a..<b] fc ! k = (if a \<le> k \<and> k < b then f else fc ! k)"
proof (induction "b - a" arbitrary: a fc)
  case 0
  then show ?case by auto
next
  case (Suc n)
  then have ab: "a < b" and n: "n = b - Suc a" by auto
  have "fold (\<lambda>i xs. xs[i := f]) [a..<b] fc = fold (\<lambda>i xs. xs[i := f]) [Suc a..<b] (fc[a := f])"
    using ab by (simp add: upt_conv_Cons)
  with Suc.hyps(1)[OF n, of "fc[a := f]"] Suc.prems show ?case
    by (auto simp: nth_list_update)
qed

lemma nth_paint:
  "k < length fc \<Longrightarrow>
   paint a c f fc ! k = (if 0 \<le> a \<and> a \<le> int k \<and> int k < a + c then f else fc ! k)"
  by (auto simp: paint_def Let_def fold_update_nth)

lemma paint_all: "length fc = n \<Longrightarrow> 0 < n \<Longrightarrow> paint 0 (int n) f fc = replicate n f"
  by (rule nth_equalityI) (auto simp: nth_paint)

lemma paint_all_ge: "length fc \<le> n \<Longrightarrow> paint 0 (int n) f fc = replicate (length fc) f"
  by (rule nth_equalityI) (auto simp: nth_paint)

lemma paint_Nil [simp]: "paint a c f [] = []"
  by (simp add: paint_def)

lemma paint_idem [simp]: "paint a c f (paint a c f fc) = paint a c f fc"
  by (rule nth_equalityI) (auto simp: nth_paint)

lemma isValid_simps [simp]:
  "isValid b (s\<lparr>formatChanges := fc\<rparr>) = isValid b s"
  "isValid b (s\<lparr>formats := T\<rparr>) = isValid b s"
  "isValid b (s\<lparr>dirtyTextBlocks := d\<rparr>) = isValid b s"
  "isValid b (s\<lparr>highlightingFinished := h\<rparr>) = isValid b s"
  "isValid b (s\<lparr>currentBlock := c\<rparr>) = isValid b s"
  "isValid b (setUserState c v s) = isValid b s"
  by (simp_all add: isValid_def setUserState_def)

lemma text_of_simps [simp]:
  "text_of b (s\<lparr>formatChanges := fc\<rparr>) = text_of b s"
  "text_of b (s\<lparr>formats := T\<rparr>) = text_of b s"
  "text_of b (s\<lparr>dirtyTextBlocks := d\<rparr>) = text_of b s"
  "text_of b (s\<lparr>highlightingFinished := h\<rparr>) = text_of b s"
  "text_of b (s\<lparr>currentBlock := c\<rparr>) = text_of b s"
  "text_of b (setUserState c v s) = text_of b s"
  by (auto simp: text_of_def isValid_def setUserState_def nth_list_update)

lemma userState_simps [simp]:
  "userState b (s\<lparr>formatChanges := fc\<rparr>) = userState b s"
  "userState b (s\<lparr>formats := T\<rparr>) = userState b s"
  "userState b (s\<lparr>dirtyTextBlocks := d\<rparr>) = userState b s"
  "userState b (s\<lparr>highlightingFinished := h\<rparr>) = userState b s"
  "userState b (s\<lparr>currentBlock := c\<rparr>) = userState b s"
  by (simp_all add: userState_def isValid_def)

lemma userState_setUserState [simp]:
  "userState b (setUserState c v s) = (if b = c \<and> isValid c s then v else userState b s)"
  by (auto simp: userState_def isValid_def setUserState_def nth_list_update)

lemma setUserState_fields [simp]:
  "formatChanges (setUserState c v s) = formatChanges s"
  "formats (setUserState c v s) = formats s"
  "dirtyTextBlocks (setUserState c v s) = dirtyTextBlocks s"
  "highlightingFinished (setUserState c v s) = highlightingFinished s"
  "currentBlock (setUserState c v s) = currentBlock s"
  "fullyHighlightedBlockQuote (setUserState c v s) = fullyHighlightedBlockQuote s"
  by (simp_all add: setUserState_def)

lemma setUserState_commute_fields [simp]:
  "setUserState c v (s\<lparr>formatChanges := fc\<rparr>) = (setUserState c v s)\<lparr>formatChanges := fc\<rparr>"
  "setUserState c v (s\<lparr>formats := T\<rparr>) = (setUserState c v s)\<lparr>formats := T\<rparr>"
  "setUserState c v (s\<lparr>dirtyTextBlocks := d\<rparr>) = (setUserState c v s)\<lparr>dirtyTextBlocks := d\<rparr>"
  "setUserState c v (s\<lparr>highlightingFinished := h\<rparr>) = (setUserState c v s)\<lparr>highlightingFinished := h\<rparr>"
  by (simp_all add: setUserState_def isValid_def)

lemma setUserState_twice [simp]:
  "setUserState c v (setUserState c w s) = setUserState c v s"
  by (auto simp: setUserState_def isValid_def nat_less_iff)

lemma setUserState_same: "userState c s = v \<Longrightarrow> isValid c s \<Longrightarrow> setUserState c v s = s"
  by (auto simp: setUserState_def userState_def isValid_def list_update_same_conv)

lemma setUserState_swap:
  "b \<noteq> c \<Longrightarrow> setUserState b v (setUserState c w s) = setUserState c w (setUserState b v s)"
  by (cases "0 \<le> b"; cases "0 \<le> c")
     (auto simp: setUserState_def isValid_def nth_list_update list_update_swap nat_eq_iff nat_less_iff)

lemma previousBlockState_simps [simp]:
  "previousBlockState (s\<lparr>formatChanges := fc\<rparr>) = previousBlockState s"
  "previousBlockState (s\<lparr>formats := T\<rparr>) = previousBlockState s"
  "previousBlockState (s\<lparr>dirtyTextBlocks := d\<rparr>) = previousBlockState s"
  "previousBlockState (s\<lparr>highlightingFinished := h\<rparr>) = previousBlockState s"
  "previousBlockState (setUserState (currentBlock s) v s) = previousBlockState s"
  by (simp_all add: previousBlockState_def previous_def)

lemma addDirtyBlock_fields [simp]:
  "document (addDirtyBlock b s) = document s"
  "formatChanges (addDirtyBlock b s) = formatChanges s"
  "formats (addDirtyBlock b s) = formats s"
  "currentBlock (addDirtyBlock b s) = currentBlock s"
  "highlightingFinished (addDirtyBlock b s) = highlightingFinished s"
  "fullyHighlightedBlockQuote (addDirtyBlock b s) = fullyHighlightedBlockQuote s"
  "isValid c (addDirtyBlock b s) = isValid c s"
  "text_of c (addDirtyBlock b s) = text_of c s"
  "userState c (addDirtyBlock b s) = userState c s"
  "previousBlockState (addDirtyBlock b s) = previousBlockState s"
  by (simp_all add: addDirtyBlock_def)

lemma addDirtyBlock_idem [simp]: "addDirtyBlock b (addDirtyBlock b s) = addDirtyBlock b s"
  by (simp add: addDirtyBlock_def)


lemma set_addDirtyBlock [simp]:
  "set (dirtyTextBlocks (addDirtyBlock b s)) = insert b (set (dirtyTextBlocks s))"
  by (auto simp: addDirtyBlock_def)

definition onlyCurrent :: "highlighter \<Rightarrow> highlighter \<Rightarrow> bool" where
  "onlyCurrent s s' \<longleftrightarrow>
     (\<exists>v fc. length fc = length (formatChanges s) \<and>
        s' = (setUserState (currentBlock s) v s)\<lparr>formatChanges := fc\<rparr>)"

lemma onlyCurrent_refl [simp]: "onlyCurrent s s"
proof (cases "isValid (currentBlock s) s")
  case True
  then have "s = (setUserState (currentBlock s) (userState (currentBlock s) s) s)\<lparr>formatChanges := formatChanges s\<rparr>"
    by (simp add: setUserState_same)
  then show ?thesis unfolding onlyCurrent_def by blast
next
  case False
  then have "s = (setUserState (currentBlock s) 0 s)\<lparr>formatChanges := formatChanges s\<rparr>"
    by (simp add: setUserState_def)
  then show ?thesis unfolding onlyCurrent_def by blast
qed

lemma onlyCurrent_trans: "onlyCurrent s s' \<Longrightarrow> onlyCurrent s' s'' \<Longrightarrow> onlyCurrent s s''"
  unfolding onlyCurrent_def by (elim exE conjE) (simp, blast)

lemma onlyCurrent_fields:
  assumes "onlyCurrent s s'"
  shows "formats s' = formats s" and "currentBlock s' = currentBlock s"
    and "dirtyTextBlocks s' = dirtyTextBlocks s"
    and "highlightingFinished s' = highlightingFinished s"
    and "fullyHighlightedBlockQuote s' = fullyHighlightedBlockQuote s"
    and "length (formatChanges s') = length (formatChanges s)"
    and "text_of b s' = text_of b s" and "isValid b s' = isValid b s"
    and "previousBlockState s' = previousBlockState s"
    and "b \<noteq> currentBlock s \<Longrightarrow> userState b s' = userState b s"
  using assms unfolding onlyCurrent_def by auto

lemma onlyCurrent_setFormat [simp]: "onlyCurrent s (setFormat a c f s)"
proof -
  have "setFormat a c f s = s\<lparr>formatChanges := paint a c f (formatChanges s)\<rparr>"
    by (simp add: setFormat_def)
  moreover obtain v where "setUserState (currentBlock s) v s = s"
    using onlyCurrent_refl[of s] unfolding onlyCurrent_def
    by (metis highlighter.surjective highlighter.update_convs(3) setUserState_fields(1) setUserState_commute_fields(1))
  ultimately show ?thesis unfolding onlyCurrent_def
    by (metis length_paint)
qed

lemma onlyCurrent_setCurrentBlockState [simp]: "onlyCurrent s (setCurrentBlockState v s)"
proof -
  have "setCurrentBlockState v s = (setUserState (currentBlock s) v s)\<lparr>formatChanges := formatChanges s\<rparr>"
    by (simp add: setCurrentBlockState_def)
  then show ?thesis unfolding onlyCurrent_def by blast
qed

lemma onlyCurrent_step:
  "onlyCurrent s s' \<Longrightarrow> onlyCurrent s (setFormat a c f s')"
  "onlyCurrent s s' \<Longrightarrow> onlyCurrent s (setCurrentBlockState v s')"
  by (blast intro: onlyCurrent_trans onlyCurrent_setFormat onlyCurrent_setCurrentBlockState)+

lemma onlyCurrent_setHeadingStyles: "onlyCurrent s s' \<Longrightarrow> onlyCurrent s (setHeadingStyles f m g s')"
  by (auto simp: setHeadingStyles_def Let_def intro!: onlyCurrent_step)

lemma onlyCurrent_formatMatch: "onlyCurrent s s' \<Longrightarrow> onlyCurrent s (formatMatch rule m s')"
  by (auto simp: formatMatch_def Let_def intro!: onlyCurrent_step onlyCurrent_setHeadingStyles)

lemma onlyCurrent_fold:
  assumes "\<And>x s'. onlyCurrent s s' \<Longrightarrow> onlyCurrent s (f x s')"
  shows "onlyCurrent s s' \<Longrightarrow> onlyCurrent s (fold f xs s')"
  by (induction xs arbitrary: s') (auto intro: assms)

lemma onlyCurrent_applyRule: "onlyCurrent s s' \<Longrightarrow> onlyCurrent s (applyRule gm t rule s')"
  by (auto simp: applyRule_def Let_def
      intro!: onlyCurrent_fold onlyCurrent_formatMatch onlyCurrent_step)

lemma onlyCurrent_highlightAdditionalRules:
  "onlyCurrent s s' \<Longrightarrow> onlyCurrent s (highlightAdditionalRules gm rules t s')"
  unfolding highlightAdditionalRules_def
  by (rule onlyCurrent_fold) (auto intro: onlyCurrent_applyRule)

lemma at'_ok: "0 \<le> i \<Longrightarrow> i < int (length t) \<Longrightarrow> at' t i = Inr (t ! nat i)"
  by (simp add: at'_def)

lemma besideLetter_ok:
  "0 \<le> a \<Longrightarrow> a < int (length t) \<Longrightarrow> 0 \<le> b \<Longrightarrow> b < int (length t) \<Longrightarrow>
   \<exists>r. besideLetter t a b = Inr r"
  by (auto simp: besideLetter_def at'_ok)

lemma stringLoop_ok:
  "0 \<le> i \<Longrightarrow> \<exists>i2 cnt2. stringLoop t i cnt = Inr (i2, cnt2) \<and> i2 \<le> max i (int (length t))"
proof (induction t i cnt rule: stringLoop.induct)
  case (1 t i cnt)
  show ?case
  proof (cases "i < int (length t)")
    case False
    then show ?thesis by (subst stringLoop.simps) simp
  next
    case True
    with "1.prems" have c: "at' t i = Inr (t ! nat i)" by (simp add: at'_ok)
    show ?thesis
    proof (cases "t ! nat i \<noteq> CHR 0x22 \<and> \<not> (i + 1) + 1 \<ge> int (length t)")
      case False
      with True c show ?thesis by (subst stringLoop.simps) auto
    next
      case rec: True
      with "1.IH"[OF True c] "1.prems"
      obtain i2 cnt2 where "stringLoop t (i + 1) (cnt + 1) = Inr (i2, cnt2)"
        and "i2 \<le> max (i + 1) (int (length t))" by auto
      with True c rec show ?thesis by (subst stringLoop.simps) auto
    qed
  qed
qed

lemma charLoop_ok:
  "0 \<le> i \<Longrightarrow> \<exists>i2 cnt2. charLoop t i cnt = Inr (i2, cnt2) \<and> i2 \<le> max i (int (length t))"
proof (induction t i cnt rule: charLoop.induct)
  case (1 t i cnt)
  show ?case
  proof (cases "i < int (length t)")
    case False
    then show ?thesis by (subst charLoop.simps) simp
  next
    case True
    with "1.prems" have c: "at' t i = Inr (t ! nat i)" by (simp add: at'_ok)
    show ?thesis
    proof (cases "t ! nat i \<noteq> CHR 0x27 \<and> \<not> i + 1 \<ge> int (length t)")
      case False
      with True c show ?thesis by (subst charLoop.simps) auto
    next
      case rec: True
      with "1.IH"[OF True c] "1.prems"
      obtain i2 cnt2 where "charLoop t (i + 1) (cnt + 1) = Inr (i2, cnt2)"
        and "i2 \<le> max (i + 1) (int (length t))" by auto
      with True c rec show ?thesis by (subst charLoop.simps) auto
    qed
  qed
qed

definition inside :: "string \<Rightarrow> scanner \<Rightarrow> scanner flow \<Rightarrow> bool" where
  "inside t sc r =
     (case r of Return sc' \<Rightarrow> length (scan_fc sc') = length (scan_fc sc)
      | Continue sc' \<Rightarrow> 0 \<le> scan_i sc' \<and> scan_i sc' < int (length t)
          \<and> length (scan_fc sc') = length (scan_fc sc))"

lemma endOfBody_ok:
  "0 \<le> scan_i sc \<Longrightarrow> length (scan_fc sc) = length (scan_fc sc0) \<Longrightarrow>
   \<exists>r. endOfBody t sc = Inr r \<and> inside t sc0 r"
  by (auto simp: endOfBody_def inside_def)

lemma literals_ok:
  assumes "0 \<le> scan_i sc" "scan_i sc < int (length t)"
  shows "\<exists>r. literals t c sc = Inr r \<and> inside t sc r"
proof -
  let ?i = "scan_i sc"
  consider (num) "isNumber c" | (str) "\<not> isNumber c" "c = CHR 0x22"
    | (chr) "\<not> isNumber c" "c \<noteq> CHR 0x22" "c = CHR 0x27"
    | (other) "\<not> isNumber c" "c \<noteq> CHR 0x22" "c \<noteq> CHR 0x27" by blast
  then show ?thesis
  proof cases
    case num
    let ?sc = "sc\<lparr>scan_f := setForeground darkYellow (scan_f sc),
            scan_fc := paint ?i 1 (setForeground darkYellow (scan_f sc)) (scan_fc sc)\<rparr>"
    have e: "\<exists>r. endOfBody t ?sc = Inr r \<and> inside t sc r"
      using assms by (intro endOfBody_ok) simp_all
    show ?thesis
    proof (cases "?i + 1 < int (length t) \<and> ?i - 1 > 0")
      case True
      then obtain r where "besideLetter t (?i + 1) (?i - 1) = Inr r"
        using besideLetter_ok[of "?i + 1" t "?i - 1"] by auto
      with num True assms e show ?thesis
        by (cases r) (auto simp: literals_def Let_def inside_def)
    next
      case False
      with num assms e show ?thesis
        by (auto simp: literals_def Let_def)
    qed
  next
    case str
    show ?thesis
    proof (cases "?i + 1 + 1 \<ge> int (length t)")
      case True
      with str show ?thesis by (simp add: literals_def Let_def inside_def)
    next
      case False
      obtain i2 cnt2 where l: "stringLoop t (?i + 1) 1 = Inr (i2, cnt2)"
        using stringLoop_ok[of "?i + 1" t 1] assms by auto
      then have "?i + 1 \<le> i2" by (rule stringLoop_progress)
      with assms have "0 \<le> i2" by simp
      then have "\<exists>r. endOfBody t (sc\<lparr>scan_i := i2, scan_f := setForeground darkGreen (scan_f sc),
            scan_fc := paint ?i cnt2 (setForeground darkGreen (scan_f sc)) (scan_fc sc)\<rparr>) = Inr r
          \<and> inside t sc r"
        by (intro endOfBody_ok) simp_all
      then show ?thesis using str False l
        by (simp add: literals_def Let_def)
    qed
  next
    case chr
    show ?thesis
    proof (cases "?i + 1 + 1 \<ge> int (length t)")
      case True
      with chr show ?thesis by (simp add: literals_def Let_def inside_def)
    next
      case False
      obtain i2 cnt2 where l: "charLoop t (?i + 1) 1 = Inr (i2, cnt2)"
        using charLoop_ok[of "?i + 1" t 1] assms by auto
      then have "?i + 1 \<le> i2" by (rule charLoop_progress)
      with assms have "0 \<le> i2" by simp
      then have "\<exists>r. endOfBody t (sc\<lparr>scan_i := i2, scan_f := setForeground darkGreen (scan_f sc),
            scan_fc := paint ?i cnt2 (setForeground darkGreen (scan_f sc)) (scan_fc sc)\<rparr>) = Inr r
          \<and> inside t sc r"
        by (intro endOfBody_ok) simp_all
      then show ?thesis using chr False l
        by (simp add: literals_def Let_def)
    qed
  next
    case other
    with assms show ?thesis using endOfBody_ok[of sc sc t] by (simp add: literals_def Let_def)
  qed
qed

lemma whileBody_ok:
  assumes "0 \<le> scan_i sc" "scan_i sc < int (length t)"
  shows "\<exists>r. whileBody t c sc = Inr r \<and> inside t sc r"
proof (cases "c = CHR ''/''")
  case True
  show ?thesis
  proof (cases "scan_i sc + 1 < int (length t)")
    case False
    with True show ?thesis by (simp add: whileBody_def Let_def inside_def)
  next
    case lt: True
    with assms have "at' t (scan_i sc + 1) = Inr (t ! nat (scan_i sc + 1))"
      by (simp add: at'_ok)
    with True lt show ?thesis by (simp add: whileBody_def Let_def inside_def blockComment_def)
  qed
next
  case False
  with literals_ok[OF assms] show ?thesis by (simp add: whileBody_def Let_def)
qed

lemma whileNotLetter_ok:
  "0 \<le> scan_i sc \<Longrightarrow> scan_i sc < int (length t) \<Longrightarrow>
   \<exists>r. whileNotLetter t sc = Inr r \<and> inside t sc r"
proof (induction t sc rule: whileNotLetter.induct)
  case (1 t sc)
  then have c: "at' t (scan_i sc) = Inr (t ! nat (scan_i sc))" by (simp add: at'_ok)
  let ?c = "t ! nat (scan_i sc)"
  show ?case
  proof (cases "isLetter ?c")
    case True
    with c "1.prems" show ?thesis
      by (subst whileNotLetter.simps) (simp add: inside_def)
  next
    case False
    from whileBody_ok[OF "1.prems", of ?c] obtain r
      where r: "whileBody t ?c sc = Inr r" and ins: "inside t sc r" by blast
    show ?thesis
    proof (cases r)
      case (Return sc1)
      with c False r ins show ?thesis
        by (subst whileNotLetter.simps) (simp add: inside_def)
    next
      case (Continue sc1)
      with ins have b: "0 \<le> scan_i sc1" "scan_i sc1 < int (length t)"
        and l: "length (scan_fc sc1) = length (scan_fc sc)" by (simp_all add: inside_def)
      from "1.IH"[OF c False r Continue b]
      obtain r' where "whileNotLetter t sc1 = Inr r'" "inside t sc1 r'" by blast
      with c False r Continue l show ?thesis
        by (subst whileNotLetter.simps) (auto simp: inside_def split: flow.splits)
    qed
  qed
qed

lemma midRef_length: "0 \<le> i \<Longrightarrow> w = midRef t i (int (length w)) \<Longrightarrow> i + int (length w) \<le> int (length t) \<or> w = []"
proof -
  assume i: "0 \<le> i" and w: "w = midRef t i (int (length w))"
  have "length (midRef t i (int (length w))) \<le> length t - nat i"
    by (simp add: midRef_def)
  with w have "length w \<le> length t - nat i" by simp
  then have "w \<noteq> [] \<Longrightarrow> nat i + length w \<le> length t" by (cases w) auto
  then show ?thesis using i by (cases "w = []") (simp, linarith)
qed

lemma tokenLoop_ok:
  "0 \<le> scan_i sc \<Longrightarrow> scan_i sc \<le> int (length t) \<Longrightarrow>
   \<exists>sc'. tokenLoop col t ws sc = Inr sc' \<and> 0 \<le> scan_i sc' \<and> scan_i sc' \<le> int (length t)
     \<and> length (scan_fc sc') = length (scan_fc sc)"
proof (induction ws arbitrary: sc)
  case Nil
  then show ?case by simp
next
  case (Cons w ws)
  let ?i = "scan_i sc" and ?n = "int (length w)"
  show ?case
  proof (cases "w = midRef t ?i ?n")
    case False
    with Cons.IH[OF Cons.prems] show ?thesis by (simp add: Let_def)
  next
    case True
    then have len: "?i + ?n \<le> int (length t)"
      using midRef_length[OF Cons.prems(1) True] Cons.prems by auto
    let ?sc = "sc\<lparr>scan_i := ?i + ?n, scan_f := setForeground col (scan_f sc),
         scan_fc := paint ?i ?n (setForeground col (scan_f sc)) (scan_fc sc)\<rparr>"
    from len Cons.prems have "0 \<le> scan_i ?sc" "scan_i ?sc \<le> int (length t)" by simp_all
    note moved = Cons.IH[OF this]
    show ?thesis
    proof (cases "?i + ?n < int (length t) \<and> ?i > 0")
      case False
      with True moved show ?thesis by (auto simp: Let_def)
    next
      case mid: True
      then obtain r where "besideLetter t (?i + ?n) (?i - 1) = Inr r"
        using besideLetter_ok[of "?i + ?n" t "?i - 1"] by auto
      with True mid moved Cons.IH[OF Cons.prems] show ?thesis
        by (cases r) (auto simp: Let_def)
    qed
  qed
qed

lemma forLoop_ok:
  "0 \<le> scan_i sc \<Longrightarrow>
   \<exists>sc'. forLoop t tables sc = Inr sc' \<and> length (scan_fc sc') = length (scan_fc sc)"
proof (induction t tables sc rule: forLoop.induct)
  case (1 t tables sc)
  show ?case
  proof (cases "scan_i sc < int (length t)")
    case False
    then show ?thesis by (subst forLoop.simps) simp
  next
    case True
    from whileNotLetter_ok[OF "1.prems" True] obtain r
      where r: "whileNotLetter t sc = Inr r" and ins: "inside t sc r" by blast
    show ?thesis
    proof (cases r)
      case (Return sc')
      with True r ins show ?thesis by (subst forLoop.simps) (simp add: inside_def)
    next
      case (Continue sc1)
      with ins have b1: "0 \<le> scan_i sc1" "scan_i sc1 \<le> int (length t)"
        and l1: "length (scan_fc sc1) = length (scan_fc sc)"
        by (simp_all add: inside_def)
      from tokenLoop_ok[OF b1] obtain sc2
        where t2: "tokenLoop darkBlue t (fst tables) sc1 = Inr sc2"
          and b2: "0 \<le> scan_i sc2" "scan_i sc2 \<le> int (length t)"
          and l2: "length (scan_fc sc2) = length (scan_fc sc1)" by blast
      from tokenLoop_ok[OF b2] obtain sc3
        where t3: "tokenLoop cyan t (fst (snd tables)) sc2 = Inr sc3"
          and b3: "0 \<le> scan_i sc3" "scan_i sc3 \<le> int (length t)"
          and l3: "length (scan_fc sc3) = length (scan_fc sc2)" by blast
      from tokenLoop_ok[OF b3] obtain sc4
        where t4: "tokenLoop magenta t (snd (snd tables)) sc3 = Inr sc4"
          and b4: "0 \<le> scan_i sc4" "scan_i sc4 \<le> int (length t)"
          and l4: "length (scan_fc sc4) = length (scan_fc sc3)" by blast
      from b4 have "0 \<le> scan_i (sc4\<lparr>scan_i := scan_i sc4 + 1\<rparr>)" by simp
      from "1.IH"[OF True r Continue t2 t3 t4 this]
      obtain sc' where "forLoop t tables (sc4\<lparr>scan_i := scan_i sc4 + 1\<rparr>) = Inr sc'"
        and "length (scan_fc sc') = length (scan_fc sc4)" by auto
      with True r Continue t2 t3 t4 l1 l2 l3 l4 show ?thesis by (subst forLoop.simps) simp
    qed
  qed
qed

lemma highlightSyntax_ok:
  "\<exists>fc. highlightSyntax t s = Inr (s\<lparr>formatChanges := fc\<rparr>) \<and> length fc = length (formatChanges s)"
proof (cases "t = []")
  case True
  then show ?thesis
    by (intro exI[of _ "formatChanges s"]) (simp add: highlightSyntax_def)
next
  case False
  let ?tables = "if currentBlockState s = CodeCpp then loadCppData else ([], [], [])"
  let ?sc = "\<lparr>scan_i = 0, scan_f = formats s CodeBlock,
     scan_fc = paint 0 (int (length t)) (formats s CodeBlock) (formatChanges s)\<rparr>"
  obtain sc' where "forLoop t ?tables ?sc = Inr sc'" "length (scan_fc sc') = length (scan_fc ?sc)"
    using forLoop_ok[of ?sc t ?tables] by auto
  with False show ?thesis
    by (intro exI[of _ "scan_fc sc'"]) (simp add: highlightSyntax_def Let_def setFormat_def)
qed

lemma onlyCurrent_update_fc:
  "onlyCurrent s s' \<Longrightarrow> length fc = length (formatChanges s) \<Longrightarrow> onlyCurrent s (s'\<lparr>formatChanges := fc\<rparr>)"
  unfolding onlyCurrent_def by (elim exE conjE) (simp, blast)

lemma onlyCurrent_highlightCommentBlock: "onlyCurrent s s' \<Longrightarrow> onlyCurrent s (highlightCommentBlock t s')"
  by (auto simp: highlightCommentBlock_def Let_def intro!: onlyCurrent_step)

lemma onlyCurrent_highlightFrontmatterBlock:
  "onlyCurrent s s' \<Longrightarrow> onlyCurrent s (highlightFrontmatterBlock t s')"
  by (auto simp: highlightFrontmatterBlock_def Let_def intro!: onlyCurrent_step)

lemma onlyCurrent_highlightSyntax:
  assumes "onlyCurrent s s'" "highlightSyntax t s' = Inr s''"
  shows "onlyCurrent s s''"
proof -
  obtain fc where "highlightSyntax t s' = Inr (s'\<lparr>formatChanges := fc\<rparr>)"
    "length fc = length (formatChanges s')"
    using highlightSyntax_ok by blast
  with assms show ?thesis
    by (auto intro!: onlyCurrent_update_fc simp: onlyCurrent_fields)
qed

text \<open>What a fence line makes of the table of formats.\<close>

definition fenceFormats :: "(int \<Rightarrow> QTextCharFormat) \<Rightarrow> int \<Rightarrow> QTextCharFormat" where
  "fenceFormats T =
     T(MaskedSyntax := setFontPointSize (fontPointSize (T CodeBlock)) (T MaskedSyntax))"

lemma highlightCodeBlock_fence:
  assumes "startsWith t ''```''"
  shows "highlightCodeBlock t s =
    Inr ((setCurrentBlockState
           (if previousBlockState s \<noteq> CodeBlock \<and> previousBlockState s < 200
            then (if midRef t 3 (int (length t)) = ''cpp'' then CodeCpp
                  else if midRef t 3 (int (length t)) = ''js'' then CodeJs else CodeBlock)
            else CodeBlockEnd) s)
         \<lparr>formats := fenceFormats (formats s),
          formatChanges := paint 0 (int (length t)) (fenceFormats (formats s) MaskedSyntax)
             (formatChanges s)\<rparr>)"
  using assms
  by (auto simp: highlightCodeBlock_def Let_def setFormat_def setCurrentBlockState_def
      fenceFormats_def HighlighterState_defs)

lemma highlightCodeBlock_no_fence:
  assumes "\<not> startsWith t ''```''"
  shows "\<exists>s'. highlightCodeBlock t s = Inr s' \<and> onlyCurrent s s'"
proof -
  have "\<exists>s'. highlightSyntax t (setCurrentBlockState v s) = Inr s' \<and> onlyCurrent s s'" for v
    using highlightSyntax_ok[of t "setCurrentBlockState v s"]
    by (auto intro!: onlyCurrent_update_fc simp: onlyCurrent_fields[OF onlyCurrent_setCurrentBlockState])
  with assms show ?thesis
    by (auto simp: highlightCodeBlock_def intro!: onlyCurrent_step)
qed

lemma highlightCodeBlock_ok: "\<exists>s'. highlightCodeBlock t s = Inr s'"
  using highlightCodeBlock_fence[of t s] highlightCodeBlock_no_fence[of t s] by (cases "startsWith t ''```''") auto

lemma highlightMarkdown_ok: "\<exists>s'. highlightMarkdown gm t s = Inr s'"
proof -
  obtain s2 where "highlightCodeBlock t (highlightCommentBlock t
      (if t \<noteq> [] then highlightAdditionalRules gm highlightingRulesAfter t
         (highlightHeadline t (highlightAdditionalRules gm
            (highlightingRulesPre (fullyHighlightedBlockQuote s)) t s)) else s)) = Inr s2"
    using highlightCodeBlock_ok by blast
  then show ?thesis by (simp add: highlightMarkdown_def Let_def)
qed

lemma highlightBlock_ok: "\<exists>s'. highlightBlock gm t s = Inr s'"
proof -
  obtain s' where "highlightMarkdown gm t
     (setUserState (currentBlock s) NoState (setCurrentBlockState NoState s)) = Inr s'"
    using highlightMarkdown_ok by blast
  then show ?thesis by (simp add: highlightBlock_def)
qed


lemma highlightHeadline_fields [simp]:
  "formats (highlightHeadline t s) = formats s"
  "currentBlock (highlightHeadline t s) = currentBlock s"
  "fullyHighlightedBlockQuote (highlightHeadline t s) = fullyHighlightedBlockQuote s"
  "highlightingFinished (highlightHeadline t s) = highlightingFinished s"
  "length (formatChanges (highlightHeadline t s)) = length (formatChanges s)"
  "text_of b (highlightHeadline t s) = text_of b s"
  "isValid b (highlightHeadline t s) = isValid b s"
  by (simp_all add: highlightHeadline_def setextUnderline_def Let_def setFormat_def
      setCurrentBlockState_def setCurrentBlockMargin_def)

lemma countHashes_range: "headingFound t \<Longrightarrow> 1 \<le> countHashes t \<and> countHashes t \<le> 6"
proof -
  assume "headingFound t"
  then obtain r where t: "t = CHR ''#'' # r"
    by (cases t) (auto simp: headingFound_def startsWith_def)
  have "length (filter (\<lambda>c. c = CHR ''#'') (take 6 t)) \<le> length (take 6 t)"
    by (rule length_filter_le)
  then have "countHashes t \<le> 6" by (simp add: countHashes_def)
  moreover have "1 \<le> countHashes t" by (simp add: countHashes_def t)
  ultimately show ?thesis by simp
qed

text \<open>The states of blocks change only to values with a given property.\<close>

definition changesOnlyTo :: "(int \<Rightarrow> bool) \<Rightarrow> highlighter \<Rightarrow> highlighter \<Rightarrow> bool" where
  "changesOnlyTo P s s' \<longleftrightarrow> (\<forall>b. userState b s' = userState b s \<or> P (userState b s'))"

lemma changesOnlyTo_refl [simp]: "changesOnlyTo P s s"
  by (simp add: changesOnlyTo_def)

lemma changesOnlyTo_trans:
  "changesOnlyTo P s s' \<Longrightarrow> changesOnlyTo P s' s'' \<Longrightarrow> changesOnlyTo P s s''"
  unfolding changesOnlyTo_def by metis

lemma changesOnlyTo_setFormat: "changesOnlyTo P s s' \<Longrightarrow> changesOnlyTo P s (setFormat a c f s')"
  by (simp add: changesOnlyTo_def setFormat_def)

lemma changesOnlyTo_setUserState:
  "changesOnlyTo P s s' \<Longrightarrow> P v \<Longrightarrow> changesOnlyTo P s (setUserState b v s')"
  by (auto simp: changesOnlyTo_def)

lemma changesOnlyTo_setCurrentBlockState:
  "changesOnlyTo P s s' \<Longrightarrow> P v \<Longrightarrow> changesOnlyTo P s (setCurrentBlockState v s')"
  by (simp add: setCurrentBlockState_def changesOnlyTo_setUserState)

lemma changesOnlyTo_addDirtyBlock:
  "changesOnlyTo P s s' \<Longrightarrow> changesOnlyTo P s (addDirtyBlock b s')"
  by (simp add: changesOnlyTo_def)

lemma changesOnlyTo_fc:
  "changesOnlyTo P s s' \<Longrightarrow> changesOnlyTo P s (s'\<lparr>formatChanges := fc\<rparr>)"
  "changesOnlyTo P s s' \<Longrightarrow> changesOnlyTo P s (s'\<lparr>formats := T\<rparr>)"
  by (simp_all add: changesOnlyTo_def)

lemma document_formatMatch [simp]: "document (formatMatch rule m s) = document s"
  by (simp add: formatMatch_def setHeadingStyles_def Let_def setFormat_def)

lemma document_fold_formatMatch [simp]: "document (fold (formatMatch rule) ms s) = document s"
  by (induction ms arbitrary: s) simp_all

lemma userState_document: "document s' = document s \<Longrightarrow> userState b s' = userState b s"
  by (simp add: userState_def isValid_def)

lemma changesOnlyTo_applyRule:
  assumes "changesOnlyTo P s s'" "useStateAsCurrentBlockState rule \<Longrightarrow> P (state rule)"
  shows "changesOnlyTo P s (applyRule gm t rule s')"
proof -
  have "changesOnlyTo P s' (applyRule gm t rule s')"
    using assms(2)
    by (auto simp: applyRule_def Let_def changesOnlyTo_def setCurrentBlockState_def
        userState_document[OF document_fold_formatMatch])
  with assms(1) show ?thesis by (rule changesOnlyTo_trans)
qed

lemma changesOnlyTo_highlightAdditionalRules:
  assumes "list_all (\<lambda>r. useStateAsCurrentBlockState r \<longrightarrow> P (state r)) rules"
  shows "changesOnlyTo P s s' \<Longrightarrow> changesOnlyTo P s (highlightAdditionalRules gm rules t s')"
  using assms unfolding highlightAdditionalRules_def
  by (induction rules arbitrary: s') (auto intro: changesOnlyTo_applyRule)

lemma changesOnlyTo_highlightHeadline:
  assumes "\<And>v. H1 \<le> v \<Longrightarrow> v \<le> H6 \<Longrightarrow> P v" "P HeadlineEnd"
  shows "changesOnlyTo P s s' \<Longrightarrow> changesOnlyTo P s (highlightHeadline t s')"
proof -
  assume s: "changesOnlyTo P s s'"
  have h: "P H1" "P H2" by (rule assms(1); simp add: HighlighterState_defs)+
  have c: "headingFound t \<Longrightarrow> P (H1 + countHashes t - 1)"
    using countHashes_range[of t] by (intro assms(1)) (auto simp: HighlighterState_defs)
  show ?thesis
    unfolding highlightHeadline_def setextUnderline_def Let_def setCurrentBlockMargin_def
    using s h c assms(2)
    by (auto intro!: changesOnlyTo_setUserState changesOnlyTo_setCurrentBlockState
        changesOnlyTo_setFormat changesOnlyTo_addDirtyBlock)
qed

lemma changesOnlyTo_highlightCommentBlock:
  "P Comment \<Longrightarrow> changesOnlyTo P s s' \<Longrightarrow> changesOnlyTo P s (highlightCommentBlock t s')"
  unfolding highlightCommentBlock_def Let_def
  by (auto intro!: changesOnlyTo_setCurrentBlockState changesOnlyTo_setFormat)

lemma changesOnlyTo_highlightCodeBlock:
  assumes "P CodeBlock" "P CodeBlockEnd" "P CodeCpp" "P CodeJs"
    and "changesOnlyTo P s s'" "highlightCodeBlock t s' = Inr s''"
  shows "changesOnlyTo P s s''"
proof (cases "startsWith t ''```''")
  case True
  from assms(6) show ?thesis
    unfolding highlightCodeBlock_fence[OF True] using assms(1-5)
    by (auto intro!: changesOnlyTo_fc changesOnlyTo_setCurrentBlockState)
next
  case False
  have syn: "changesOnlyTo P s (setCurrentBlockState v s') \<Longrightarrow>
      highlightSyntax t (setCurrentBlockState v s') = Inr s'' \<Longrightarrow> changesOnlyTo P s s''" for v
    using highlightSyntax_ok[of t "setCurrentBlockState v s'"]
    by (auto intro: changesOnlyTo_fc)
  from assms(6) False show ?thesis
    using assms(1-5)
    by (auto simp: highlightCodeBlock_def split: if_splits
        intro!: changesOnlyTo_setCurrentBlockState changesOnlyTo_setFormat
        intro: syn[OF changesOnlyTo_setCurrentBlockState])
qed

definition exampleFormats :: "int \<Rightarrow> QTextCharFormat" where
  "exampleFormats =
     (\<lambda>_. QTextCharFormat0)
     (H1 := QTextCharFormat0\<lparr>foregroundP := Some (QColor 0 49 110), fontWeightP := Some 75,
              fontPointSizeP := Some 19.2\<rparr>,
      H2 := QTextCharFormat0\<lparr>foregroundP := Some (QColor 0 49 110), fontWeightP := Some 75,
              fontPointSizeP := Some 18\<rparr>,
      CodeBlock := QTextCharFormat0\<lparr>backgroundP := Some (QColor 220 220 220),
              fontPointSizeP := Some 10, fontFixedP := Some True\<rparr>,
      InlineCodeBlock := QTextCharFormat0\<lparr>backgroundP := Some (QColor 220 220 220),
              fontPointSizeP := Some 10, fontFixedP := Some True\<rparr>,
      Comment := QTextCharFormat0\<lparr>foregroundP := Some gray\<rparr>,
      MaskedSyntax := QTextCharFormat0\<lparr>foregroundP := Some (QColor 204 204 204)\<rparr>)"

definition newHighlighter :: "string list \<Rightarrow> highlighter" where
  "newHighlighter lines =
     \<lparr>document = map (\<lambda>t. \<lparr>blockText = t, blockUserState = -1\<rparr>) lines,
      currentBlock = 0, formatChanges = [], formats = exampleFormats,
      dirtyTextBlocks = [], highlightingFinished = False,
      fullyHighlightedBlockQuote = False\<rparr>"

definition noMatches :: globalMatch where
  "noMatches p t = []"

lemma noMatches_rules [simp]: "highlightAdditionalRules noMatches rules t s = s"
  unfolding highlightAdditionalRules_def
  by (induction rules arbitrary: s) (auto simp: applyRule_def noMatches_def)

lemmas eval_defs = rehighlightBlock_def highlightBlock_def highlightMarkdown_def
  highlightHeadline_def highlightCommentBlock_def highlightCodeBlock_def
  highlightFrontmatterBlock_def newHighlighter_def isValid_def text_of_def userState_def
  setUserState_def setCurrentBlockState_def previousBlockState_def previous_def
  next_block_def firstBlock_def headingFound_def startsWith_def endsWith_def
  hasOnlyHeadChars_def trimmed_def isSpace_def contains_def indexOf_def midRef_def
  setFormat_def Let_def HighlighterState_defs

lemma changesOnlyTo_highlightFrontmatterBlock:
  "P FrontmatterBlock \<Longrightarrow> P FrontmatterBlockEnd \<Longrightarrow> changesOnlyTo P s s' \<Longrightarrow>
   changesOnlyTo P s (highlightFrontmatterBlock t s')"
  unfolding highlightFrontmatterBlock_def Let_def
  by (auto intro!: changesOnlyTo_setCurrentBlockState changesOnlyTo_setFormat)

lemma changesOnlyTo_phase1:
  assumes "P List" "\<And>v. H1 \<le> v \<Longrightarrow> v \<le> H6 \<Longrightarrow> P v" "P HeadlineEnd"
  shows "changesOnlyTo P s
     (highlightAdditionalRules gm highlightingRulesAfter t
        (highlightHeadline t (highlightAdditionalRules gm (highlightingRulesPre q) t s)))"
proof -
  have pre: "list_all (\<lambda>r. useStateAsCurrentBlockState r \<longrightarrow> P (state r)) (highlightingRulesPre q)"
    using assms(1) by (simp add: highlightingRulesPre_def HighlightingRule_def)
  have post: "list_all (\<lambda>r. useStateAsCurrentBlockState r \<longrightarrow> P (state r)) highlightingRulesAfter"
    by (simp add: highlightingRulesAfter_def HighlightingRule_def)
  show ?thesis
    by (intro changesOnlyTo_highlightAdditionalRules[OF post]
        changesOnlyTo_highlightHeadline[of P, OF assms(2,3)]
        changesOnlyTo_highlightAdditionalRules[OF pre]) simp_all
qed

text \<open>The rules and the headlines, as \<^verbatim>\<open>highlightMarkdown\<close> runs them first.\<close>

definition phase1 :: "globalMatch \<Rightarrow> string \<Rightarrow> highlighter \<Rightarrow> highlighter" where
  "phase1 gm t s =
     (if t \<noteq> [] then
        highlightAdditionalRules gm highlightingRulesAfter t
          (highlightHeadline t
            (highlightAdditionalRules gm (highlightingRulesPre (fullyHighlightedBlockQuote s)) t s))
      else s)"

lemma highlightMarkdown_phase1:
  "highlightMarkdown gm t s =
     (case highlightCodeBlock t (highlightCommentBlock t (phase1 gm t s)) of
        Inl e \<Rightarrow> Inl e | Inr s2 \<Rightarrow> Inr (highlightFrontmatterBlock t s2))"
  by (simp add: highlightMarkdown_def phase1_def Let_def)

text \<open>The lines of the document, the current block and the number of formats stay.\<close>

definition sameLines :: "highlighter \<Rightarrow> highlighter \<Rightarrow> bool" where
  "sameLines s s' \<longleftrightarrow>
     currentBlock s' = currentBlock s \<and> (\<forall>b. text_of b s' = text_of b s) \<and>
     (\<forall>b. isValid b s' = isValid b s) \<and>
     length (formatChanges s') = length (formatChanges s) \<and>
     fullyHighlightedBlockQuote s' = fullyHighlightedBlockQuote s"

lemma sameLines_refl [simp]: "sameLines s s"
  by (simp add: sameLines_def)

lemma sameLines_trans: "sameLines s s' \<Longrightarrow> sameLines s' s'' \<Longrightarrow> sameLines s s''"
  by (simp add: sameLines_def)

lemma onlyCurrent_sameLines: "onlyCurrent s s' \<Longrightarrow> sameLines s s'"
  by (simp add: sameLines_def onlyCurrent_fields)

lemma sameLines_highlightHeadline [simp]: "sameLines s (highlightHeadline t s)"
  by (simp add: sameLines_def)

lemma sameLines_phase1 [simp]: "sameLines s (phase1 gm t s)"
proof -
  let ?a = "highlightAdditionalRules gm (highlightingRulesPre (fullyHighlightedBlockQuote s)) t s"
  have "sameLines s ?a"
    by (intro onlyCurrent_sameLines onlyCurrent_highlightAdditionalRules) simp
  moreover have "sameLines ?a (highlightHeadline t ?a)" by simp
  moreover have "sameLines (highlightHeadline t ?a)
     (highlightAdditionalRules gm highlightingRulesAfter t (highlightHeadline t ?a))"
    by (intro onlyCurrent_sameLines onlyCurrent_highlightAdditionalRules) simp
  ultimately have "sameLines s
     (highlightAdditionalRules gm highlightingRulesAfter t (highlightHeadline t ?a))"
    by (blast intro: sameLines_trans)
  then show ?thesis
    by (simp add: phase1_def)
qed

lemma sameLines_highlightCommentBlock [simp]: "sameLines s (highlightCommentBlock t s)"
  by (intro onlyCurrent_sameLines onlyCurrent_highlightCommentBlock) simp

lemma sameLines_highlightFrontmatterBlock [simp]: "sameLines s (highlightFrontmatterBlock t s)"
  by (intro onlyCurrent_sameLines onlyCurrent_highlightFrontmatterBlock) simp

lemma sameLines_highlightCodeBlock: "highlightCodeBlock t s = Inr s' \<Longrightarrow> sameLines s s'"
proof (cases "startsWith t ''```''")
  case True
  assume "highlightCodeBlock t s = Inr s'"
  then show ?thesis
    unfolding highlightCodeBlock_fence[OF True]
    by (auto simp: sameLines_def setCurrentBlockState_def)
next
  case False
  assume "highlightCodeBlock t s = Inr s'"
  with highlightCodeBlock_no_fence[OF False, of s] show ?thesis
    by (auto intro: onlyCurrent_sameLines)
qed

lemma sameLines_highlightMarkdown: "highlightMarkdown gm t s = Inr s' \<Longrightarrow> sameLines s s'"
  unfolding highlightMarkdown_phase1
  by (auto split: sum.splits dest!: sameLines_highlightCodeBlock
      intro: sameLines_trans[OF sameLines_phase1]
        sameLines_trans[OF sameLines_highlightCommentBlock]
        sameLines_trans[OF _ sameLines_highlightFrontmatterBlock])

lemma changesOnlyTo_phase1':
  assumes "P List" "\<And>v. H1 \<le> v \<Longrightarrow> v \<le> H6 \<Longrightarrow> P v" "P HeadlineEnd"
  shows "changesOnlyTo P s (phase1 gm t s)"
  using changesOnlyTo_phase1[OF assms] by (simp add: phase1_def)

lemma userState_reset:
  "userState (currentBlock s) (setUserState (currentBlock s) NoState (setCurrentBlockState NoState s)) = NoState"
proof (cases "isValid (currentBlock s) s")
  case True
  then show ?thesis by (simp add: setCurrentBlockState_def)
next
  case False
  then show ?thesis
    by (simp add: setCurrentBlockState_def) (simp add: userState_def NoState_def)
qed

text \<open>
  C7. When the text of the first block of the document is not \<open>---\<close>, front-matter
  resolution changes nothing, whatever the line and the state it is called in; and
  highlighting a block gives no block a front-matter state: a block whose state changes
  gets a state other than \<open>FrontmatterBlock\<close> and \<open>FrontmatterBlockEnd\<close>, and the
  highlighted block itself ends in neither.
\<close>

theorem no_frontmatter_without_first_line:
  assumes "text_of firstBlock s \<noteq> ''---''"
  shows "highlightFrontmatterBlock text s = s \<and>
    (\<exists>s'. highlightBlock gm text s = Inr s' \<and>
       (\<forall>b. userState b s' = userState b s \<or>
            (userState b s' \<noteq> FrontmatterBlock \<and> userState b s' \<noteq> FrontmatterBlockEnd)) \<and>
       userState (currentBlock s) s' \<noteq> FrontmatterBlock \<and>
       userState (currentBlock s) s' \<noteq> FrontmatterBlockEnd)"
proof -
  let ?P = "\<lambda>v. v \<noteq> FrontmatterBlock \<and> v \<noteq> FrontmatterBlockEnd"
  define s0 where "s0 = setUserState (currentBlock s) NoState (setCurrentBlockState NoState s)"
  have fm: "highlightFrontmatterBlock t x = x" if "text_of firstBlock x = text_of firstBlock s" for t x
    using that assms by (simp add: highlightFrontmatterBlock_def)
  have cur: "userState (currentBlock s) s0 = NoState"
    unfolding s0_def by (rule userState_reset)
  have other: "userState b s0 = userState b s \<or> userState b s0 = NoState" for b
    by (simp add: s0_def setCurrentBlockState_def)
  have t0: "text_of firstBlock s0 = text_of firstBlock s"
    by (simp add: s0_def setCurrentBlockState_def)
  define s1 where "s1 = phase1 gm text s0"
  have c1: "changesOnlyTo ?P s0 s1"
    unfolding s1_def by (rule changesOnlyTo_phase1') (auto simp: HighlighterState_defs)
  have c2: "changesOnlyTo ?P s0 (highlightCommentBlock text s1)"
    by (rule changesOnlyTo_highlightCommentBlock[OF _ c1]) (simp add: HighlighterState_defs)
  obtain s2 where s2: "highlightCodeBlock text (highlightCommentBlock text s1) = Inr s2"
    using highlightCodeBlock_ok by blast
  have c3: "changesOnlyTo ?P s0 s2"
    by (rule changesOnlyTo_highlightCodeBlock[OF _ _ _ _ c2 s2]) (simp_all add: HighlighterState_defs)
  have "sameLines s0 s1" unfolding s1_def by simp
  then have "sameLines s0 s2"
    using sameLines_highlightCodeBlock[OF s2] sameLines_highlightCommentBlock[of s1 "text"]
    by (blast intro: sameLines_trans)
  then have "text_of firstBlock s2 = text_of firstBlock s"
    using t0 by (simp add: sameLines_def)
  then have "highlightFrontmatterBlock text s2 = s2" by (rule fm)
  with s2 have hb: "highlightBlock gm text s = Inr (s2\<lparr>highlightingFinished := True\<rparr>)"
    by (simp add: highlightBlock_def highlightMarkdown_phase1 s1_def s0_def)
  have pn: "?P NoState" by (simp add: HighlighterState_defs)
  have d: "userState b s2 = userState b s0 \<or> ?P (userState b s2)" for b
    using c3 unfolding changesOnlyTo_def by blast
  have all: "userState b s2 = userState b s \<or> ?P (userState b s2)" for b
    using d[of b] other[of b] pn by presburger
  have "?P (userState (currentBlock s) s2)"
    using d[of "currentBlock s"] cur pn by presburger
  with all hb fm[of s "text"] show ?thesis
    by (intro conjI exI[of _ "s2\<lparr>highlightingFinished := True\<rparr>"]) simp_all
qed

theorem no_frontmatter_without_first_line_witness:
  "text_of firstBlock ((newHighlighter [''a'', ''---'', ''---''])\<lparr>currentBlock := 1\<rparr>) \<noteq> ''---'' \<and>
   highlightFrontmatterBlock ''---'' ((newHighlighter [''a'', ''---'', ''---''])\<lparr>currentBlock := 1\<rparr>)
     = (newHighlighter [''a'', ''---'', ''---''])\<lparr>currentBlock := 1\<rparr> \<and>
   (\<exists>s'. highlightBlock noMatches ''---''
            ((newHighlighter [''a'', ''---'', ''---''])\<lparr>currentBlock := 1\<rparr>) = Inr s' \<and>
      userState 1 s' \<noteq> FrontmatterBlock \<and> userState 1 s' \<noteq> FrontmatterBlockEnd)"
proof -
  let ?s = "(newHighlighter [''a'', ''---'', ''---''])\<lparr>currentBlock := 1\<rparr>"
  have h: "text_of firstBlock ?s \<noteq> ''---''"
    by (simp add: text_of_def firstBlock_def isValid_def newHighlighter_def)
  have c: "currentBlock ?s = 1" by simp
  from no_frontmatter_without_first_line[OF h, of "''---''" noMatches] h show ?thesis
    unfolding c by blast
qed

text \<open>
  C4. A line that is not a fence inherits the state of a previous line inside code. The
  code does so after \<open>CodeBlock\<close> and \<open>CodeCpp\<close>; after \<open>CodeJs\<close> it does nothing,
  because the outer test of \<^verbatim>\<open>highlightCodeBlock\<close> names only \<open>CodeBlock\<close> and
  \<open>CodeCpp\<close> and the branch for \<open>CodeJs\<close> below it is never reached. On the document
  of the two lines \<^verbatim>\<open>```js\<close> and \<^verbatim>\<open>var x;\<close> the first line gets the state
  \<open>CodeJs\<close>, and the second line keeps \<open>NoState\<close> and no format at all.
\<close>

theorem CodeJs_not_inherited:
  "\<exists>s1 s2. rehighlightBlock noMatches 0 (newHighlighter [''```js'', ''var x;'']) = Inr s1
     \<and> userState 0 s1 = CodeJs
     \<and> rehighlightBlock noMatches 1 s1 = Inr s2
     \<and> userState 1 s2 = NoState
     \<and> formatChanges s2 = replicate (length ''var x;'') QTextCharFormat0"
  by (simp add: eval_defs)

lemma formats_phase1 [simp]: "formats (phase1 gm t s) = formats s"
proof -
  have "formats (highlightAdditionalRules gm rules t x) = formats x" for rules x
    by (rule onlyCurrent_fields(1)) (rule onlyCurrent_highlightAdditionalRules, simp)
  then show ?thesis by (simp add: phase1_def)
qed

lemma formats_highlightCommentBlock [simp]: "formats (highlightCommentBlock t s) = formats s"
  by (rule onlyCurrent_fields(1)) (rule onlyCurrent_highlightCommentBlock, simp)

lemma formats_highlightFrontmatterBlock [simp]: "formats (highlightFrontmatterBlock t s) = formats s"
  by (rule onlyCurrent_fields(1)) (rule onlyCurrent_highlightFrontmatterBlock, simp)

lemma formats_highlightCodeBlock:
  assumes "highlightCodeBlock t s = Inr s'"
  shows "formats s' = (if startsWith t ''```'' then fenceFormats (formats s) else formats s)"
proof (cases "startsWith t ''```''")
  case True
  with assms show ?thesis
    unfolding highlightCodeBlock_fence[OF True] by auto
next
  case False
  with assms highlightCodeBlock_no_fence[OF False, of s] show ?thesis
    by (auto dest: onlyCurrent_fields(1))
qed

lemma formats_highlightBlock:
  assumes "highlightBlock gm t s = Inr s'"
  shows "formats s' = (if startsWith t ''```'' then fenceFormats (formats s) else formats s)"
proof -
  let ?s0 = "setUserState (currentBlock s) NoState (setCurrentBlockState NoState s)"
  from assms obtain s2 where
    s2: "highlightCodeBlock t (highlightCommentBlock t (phase1 gm t ?s0)) = Inr s2"
    and s': "s' = (highlightFrontmatterBlock t s2)\<lparr>highlightingFinished := True\<rparr>"
    by (auto simp: highlightBlock_def highlightMarkdown_phase1 split: sum.splits)
  from formats_highlightCodeBlock[OF s2] s' show ?thesis
    by (simp add: setCurrentBlockState_def)
qed

text \<open>
  C10. Highlighting a fence line, a text that starts with three backticks, changes the
  table of formats itself: the entry of \<open>MaskedSyntax\<close> gets the point size of the
  format of \<open>CodeBlock\<close>, in \<^verbatim>\<open>highlightCodeBlock\<close> and so in \<^verbatim>\<open>highlightBlock\<close>.
  The change stays: highlighting any line that is not a fence afterwards leaves the
  table as it is, and the headline and rule paths never change the table (they adjust a
  copy of the masked format), so that their masked formats are made from the changed entry.
\<close>

theorem fence_changes_masked_format:
  assumes "startsWith text ''```''"
  shows "(\<exists>s'. highlightCodeBlock text s = Inr s' \<and>
            formats s' = (formats s)(MaskedSyntax :=
               setFontPointSize (fontPointSize (formats s CodeBlock)) (formats s MaskedSyntax))) \<and>
         (\<exists>s'. highlightBlock gm text s = Inr s' \<and>
            formats s' = (formats s)(MaskedSyntax :=
               setFontPointSize (fontPointSize (formats s CodeBlock)) (formats s MaskedSyntax)) \<and>
            fontPointSize (formats s' MaskedSyntax) = fontPointSize (formats s CodeBlock) \<and>
            (\<forall>later s''. \<not> startsWith later ''```'' \<and> highlightBlock gm later s' = Inr s''
                \<longrightarrow> formats s'' = formats s')) \<and>
         formats (highlightHeadline other s) = formats s \<and>
         formats (highlightAdditionalRules gm rules other s) = formats s"
proof -
  obtain s1 where s1: "highlightCodeBlock text s = Inr s1"
    using highlightCodeBlock_ok by blast
  obtain s2 where s2: "highlightBlock gm text s = Inr s2"
    using highlightBlock_ok by blast
  have f1: "formats s1 = fenceFormats (formats s)"
    using formats_highlightCodeBlock[OF s1] assms by simp
  have f2: "formats s2 = fenceFormats (formats s)"
    using formats_highlightBlock[OF s2] assms by simp
  have size: "fontPointSize (fenceFormats (formats s) MaskedSyntax) = fontPointSize (formats s CodeBlock)"
    by (simp add: fenceFormats_def fontPointSize_def setFontPointSize_def)
  have later: "formats s'' = formats s2"
    if "\<not> startsWith later ''```''" "highlightBlock gm later s2 = Inr s''" for later s''
    using formats_highlightBlock[OF that(2)] that(1) by simp
  have rules: "formats (highlightAdditionalRules gm rules other s) = formats s"
    by (rule onlyCurrent_fields(1)) (rule onlyCurrent_highlightAdditionalRules, simp)
  show ?thesis
    using s1 s2 f1 f2 size later rules
    by (auto simp: fenceFormats_def)
qed

theorem fence_changes_masked_format_witness:
  "startsWith ''```cpp'' ''```'' \<and>
   (\<exists>s'. highlightBlock noMatches ''```cpp'' (newHighlighter [''```cpp'', ''int x = 1;'', ''```'']) = Inr s' \<and>
      fontPointSize (formats s' MaskedSyntax) = 10 \<and>
      fontPointSize (formats (newHighlighter [''```cpp'', ''int x = 1;'', ''```'']) MaskedSyntax) = 0)"
proof -
  have h: "startsWith ''```cpp'' ''```''" by (simp add: startsWith_def)
  have c: "fontPointSize (formats (newHighlighter [''```cpp'', ''int x = 1;'', ''```'']) CodeBlock) = 10"
    "fontPointSize (formats (newHighlighter [''```cpp'', ''int x = 1;'', ''```'']) MaskedSyntax) = 0"
    by (simp_all add: newHighlighter_def exampleFormats_def fontPointSize_def
        QTextCharFormat0_def HighlighterState_defs)
  from fence_changes_masked_format[OF h, of "newHighlighter [''```cpp'', ''int x = 1;'', ''```'']" noMatches]
  obtain s' where "highlightBlock noMatches ''```cpp'' (newHighlighter [''```cpp'', ''int x = 1;'', ''```'']) = Inr s'"
    "fontPointSize (formats s' MaskedSyntax)
       = fontPointSize (formats (newHighlighter [''```cpp'', ''int x = 1;'', ''```'']) CodeBlock)"
    by blast
  with h c show ?thesis by simp
qed

lemma highlightBlock_not_Comment:
  assumes "\<not> startsWith (trimmed t) ''<!--''" "endsWith (trimmed t) ''-->''"
  shows "\<exists>s'. highlightBlock gm t s = Inr s' \<and> userState (currentBlock s) s' \<noteq> Comment"
proof -
  let ?P = "\<lambda>v. v \<noteq> Comment"
  define s0 where "s0 = setUserState (currentBlock s) NoState (setCurrentBlockState NoState s)"
  have cur: "userState (currentBlock s) s0 = NoState"
    unfolding s0_def by (rule userState_reset)
  define s1 where "s1 = phase1 gm t s0"
  have c1: "changesOnlyTo ?P s0 s1"
    unfolding s1_def by (rule changesOnlyTo_phase1') (auto simp: HighlighterState_defs)
  have "highlightCommentBlock t s1
      = setFormat 0 (int (length (trimmed t))) (formats s1 Comment) s1"
    using assms by (simp add: highlightCommentBlock_def Let_def)
  with c1 have c2: "changesOnlyTo ?P s0 (highlightCommentBlock t s1)"
    by (simp add: changesOnlyTo_setFormat)
  obtain s2 where s2: "highlightCodeBlock t (highlightCommentBlock t s1) = Inr s2"
    using highlightCodeBlock_ok by blast
  have c3: "changesOnlyTo ?P s0 s2"
    by (rule changesOnlyTo_highlightCodeBlock[OF _ _ _ _ c2 s2]) (simp_all add: HighlighterState_defs)
  have c4: "changesOnlyTo ?P s0 (highlightFrontmatterBlock t s2)"
    by (rule changesOnlyTo_highlightFrontmatterBlock[OF _ _ c3]) (simp_all add: HighlighterState_defs)
  from s2 have hb: "highlightBlock gm t s
      = Inr ((highlightFrontmatterBlock t s2)\<lparr>highlightingFinished := True\<rparr>)"
    by (simp add: highlightBlock_def highlightMarkdown_phase1 s1_def s0_def)
  have "userState (currentBlock s) (highlightFrontmatterBlock t s2) = userState (currentBlock s) s0
      \<or> ?P (userState (currentBlock s) (highlightFrontmatterBlock t s2))"
    using c4 unfolding changesOnlyTo_def by blast
  with cur have "?P (userState (currentBlock s) (highlightFrontmatterBlock t s2))"
    by (auto simp: HighlighterState_defs)
  with hb show ?thesis by simp
qed

text \<open>
  C6. Comment-block resolution, on the trimmed text of the line, with the cases taken in
  the order in which the code tests them. A line that starts with \<^verbatim>\<open><!--\<close> and
  contains \<^verbatim>\<open>-->\<close> is left as it is: no state is set. Any other line that starts with
  \<^verbatim>\<open><!--\<close>, or whose previous state is \<open>Comment\<close> and which does not end with
  \<^verbatim>\<open>-->\<close>, gets the state \<open>Comment\<close> and is painted with the format of comments.
  A line that ends with \<^verbatim>\<open>-->\<close> and does not start with \<^verbatim>\<open><!--\<close> is painted with
  the format of comments while the states of all blocks stay as they are, and the state the
  line has once \<^verbatim>\<open>highlightBlock\<close> is through is not \<open>Comment\<close>.
\<close>

theorem comment_block_resolution:
  assumes "isValid (currentBlock s) s"
  shows
   "(startsWith (trimmed text) ''<!--'' \<and> contains (trimmed text) ''-->''
       \<longrightarrow> highlightCommentBlock text s = s) \<and>
    (\<not> (startsWith (trimmed text) ''<!--'' \<and> contains (trimmed text) ''-->'') \<and>
     (startsWith (trimmed text) ''<!--'' \<or>
      (\<not> endsWith (trimmed text) ''-->'' \<and> previousBlockState s = Comment))
       \<longrightarrow> currentBlockState (highlightCommentBlock text s) = Comment \<and>
           formatChanges (highlightCommentBlock text s)
             = paint 0 (int (length (trimmed text))) (formats s Comment) (formatChanges s)) \<and>
    (\<not> startsWith (trimmed text) ''<!--'' \<and> endsWith (trimmed text) ''-->''
       \<longrightarrow> document (highlightCommentBlock text s) = document s \<and>
           formatChanges (highlightCommentBlock text s)
             = paint 0 (int (length (trimmed text))) (formats s Comment) (formatChanges s) \<and>
           (\<exists>s'. highlightBlock gm text s = Inr s' \<and> userState (currentBlock s) s' \<noteq> Comment))"
proof (intro conjI impI)
  assume "startsWith (trimmed text) ''<!--'' \<and> contains (trimmed text) ''-->''"
  then show "highlightCommentBlock text s = s"
    by (simp add: highlightCommentBlock_def Let_def)
next
  assume a: "\<not> (startsWith (trimmed text) ''<!--'' \<and> contains (trimmed text) ''-->'') \<and>
     (startsWith (trimmed text) ''<!--'' \<or>
      (\<not> endsWith (trimmed text) ''-->'' \<and> previousBlockState s = Comment))"
  then have eq: "highlightCommentBlock text s
      = setFormat 0 (int (length (trimmed text))) (formats s Comment)
          (setCurrentBlockState Comment s)"
    by (auto simp: highlightCommentBlock_def Let_def)
  show "currentBlockState (highlightCommentBlock text s) = Comment"
    unfolding eq using assms
    by (simp add: currentBlockState_def setFormat_def setCurrentBlockState_def)
  show "formatChanges (highlightCommentBlock text s)
      = paint 0 (int (length (trimmed text))) (formats s Comment) (formatChanges s)"
    unfolding eq by (simp add: setFormat_def setCurrentBlockState_def)
next
  assume a: "\<not> startsWith (trimmed text) ''<!--'' \<and> endsWith (trimmed text) ''-->''"
  then have eq: "highlightCommentBlock text s
      = setFormat 0 (int (length (trimmed text))) (formats s Comment) s"
    by (auto simp: highlightCommentBlock_def Let_def)
  show "document (highlightCommentBlock text s) = document s"
    unfolding eq by (simp add: setFormat_def)
  show "formatChanges (highlightCommentBlock text s)
      = paint 0 (int (length (trimmed text))) (formats s Comment) (formatChanges s)"
    unfolding eq by (simp add: setFormat_def)
  from a show "\<exists>s'. highlightBlock gm text s = Inr s' \<and> userState (currentBlock s) s' \<noteq> Comment"
    by (intro highlightBlock_not_Comment) simp_all
qed

theorem comment_block_resolution_witness:
  "isValid (currentBlock (newHighlighter [''<!-- a -->''])) (newHighlighter [''<!-- a -->'']) \<and>
   startsWith (trimmed ''<!-- a -->'') ''<!--'' \<and> contains (trimmed ''<!-- a -->'') ''-->'' \<and>
   highlightCommentBlock ''<!-- a -->'' (newHighlighter [''<!-- a -->''])
     = newHighlighter [''<!-- a -->''] \<and>
   startsWith (trimmed ''<!-- a'') ''<!--'' \<and> \<not> contains (trimmed ''<!-- a'') ''-->'' \<and>
   currentBlockState (highlightCommentBlock ''<!-- a'' (newHighlighter [''<!-- a''])) = Comment \<and>
   \<not> startsWith (trimmed ''b -->'') ''<!--'' \<and> endsWith (trimmed ''b -->'') ''-->'' \<and>
   previousBlockState
     (setUserState 0 Comment ((newHighlighter [''<!-- a'', ''b -->''])\<lparr>currentBlock := 1\<rparr>)) = Comment \<and>
   (\<exists>s'. highlightBlock noMatches ''b -->''
       (setUserState 0 Comment ((newHighlighter [''<!-- a'', ''b -->''])\<lparr>currentBlock := 1\<rparr>)) = Inr s'
      \<and> userState 1 s' \<noteq> Comment)"
proof -
  let ?A = "newHighlighter [''<!-- a -->'']"
  let ?B = "newHighlighter [''<!-- a'']"
  let ?C = "setUserState 0 Comment ((newHighlighter [''<!-- a'', ''b -->''])\<lparr>currentBlock := 1\<rparr>)"
  have vA: "isValid (currentBlock ?A) ?A" and vB: "isValid (currentBlock ?B) ?B"
    and vC: "isValid (currentBlock ?C) ?C"
    by (simp_all add: isValid_def newHighlighter_def setUserState_def)
  have a: "startsWith (trimmed ''<!-- a -->'') ''<!--''" "contains (trimmed ''<!-- a -->'') ''-->''"
    by (simp_all add: startsWith_def contains_def indexOf_def trimmed_def isSpace_def)
  have b: "startsWith (trimmed ''<!-- a'') ''<!--''" "\<not> contains (trimmed ''<!-- a'') ''-->''"
    by (simp_all add: startsWith_def contains_def indexOf_def trimmed_def isSpace_def)
  have c: "\<not> startsWith (trimmed ''b -->'') ''<!--''" "endsWith (trimmed ''b -->'') ''-->''"
    by (simp_all add: startsWith_def endsWith_def trimmed_def isSpace_def)
  have p: "previousBlockState ?C = Comment"
    by (simp add: previousBlockState_def previous_def isValid_def newHighlighter_def
        setUserState_def userState_def)
  have cc: "currentBlock ?C = 1" by simp
  from comment_block_resolution[OF vA, of "''<!-- a -->''"] a
  have 1: "highlightCommentBlock ''<!-- a -->'' ?A = ?A" by blast
  from comment_block_resolution[OF vB, of "''<!-- a''"] b
  have 2: "currentBlockState (highlightCommentBlock ''<!-- a'' ?B) = Comment" by blast
  from comment_block_resolution[OF vC, of "''b -->''" noMatches] c
  have 3: "\<exists>s'. highlightBlock noMatches ''b -->'' ?C = Inr s' \<and> userState 1 s' \<noteq> Comment"
    unfolding cc by blast
  from vA a 1 b 2 c p 3 show ?thesis by blast
qed

lemma trimmed_Cons: "\<not> isSpace c \<Longrightarrow> \<exists>r'. trimmed (c # r) = c # r'"
proof -
  assume c: "\<not> isSpace c"
  have "\<exists>ys. dropWhile isSpace (xs @ [c]) = ys @ [c]" for xs
    using c by (induction xs) auto
  then obtain ys where "dropWhile isSpace (rev r @ [c]) = ys @ [c]" by blast
  with c show ?thesis by (simp add: trimmed_def)
qed

lemma no_matches_rules:
  "list_all (\<lambda>r. gm (pattern r) t = []) rules \<Longrightarrow> highlightAdditionalRules gm rules t s = s"
  unfolding highlightAdditionalRules_def
  by (induction rules arbitrary: s) (auto simp: applyRule_def)

text \<open>When the three last steps of \<^verbatim>\<open>highlightMarkdown\<close> leave a line alone.\<close>

lemma tail_untouched:
  assumes "\<not> startsWith (trimmed t) ''<!--''" "\<not> endsWith (trimmed t) ''-->''"
    and "previousBlockState x \<noteq> Comment"
    and "\<not> startsWith t ''```''" "previousBlockState x \<noteq> CodeBlock"
    and "previousBlockState x \<noteq> CodeCpp"
    and "text_of firstBlock x \<noteq> ''---'' \<or>
         (previousBlockState x \<noteq> FrontmatterBlock \<and>
          (t \<noteq> ''---'' \<or> firstBlock \<noteq> currentBlock x))"
  shows "highlightCommentBlock t x = x" and "highlightCodeBlock t x = Inr x"
    and "highlightFrontmatterBlock t x = x"
  using assms
  by (auto simp: highlightCommentBlock_def highlightCodeBlock_def highlightFrontmatterBlock_def Let_def)

lemma paint_head_tail:
  assumes "length fc = len" "n \<le> len"
  shows "paint (int n) (int len - int n) h (paint 0 (int len) m fc)
     = replicate n m @ replicate (len - n) h"
  using assms by (intro nth_equalityI) (auto simp: nth_paint nth_append)

lemma countHashes_shape:
  assumes "t = replicate n (CHR ''#'') @ CHR '' '' # rest" "n \<le> 6"
    "CHR ''#'' \<notin> set (take (5 - n) rest)"
  shows "countHashes t = int n"
proof -
  have "take 6 t = replicate n (CHR ''#'') @ take (6 - n) (CHR '' '' # rest)"
    using assms(1,2) by simp
  moreover have "filter (\<lambda>c. c = CHR ''#'') (take (6 - n) (CHR '' '' # rest)) = []"
  proof (cases "6 - n")
    case 0
    then show ?thesis by simp
  next
    case (Suc k)
    then have "k = 5 - n" by simp
    with Suc assms(3) show ?thesis by (auto simp: filter_empty_conv)
  qed
  ultimately show ?thesis by (simp add: countHashes_def)
qed

lemma headingFound_shape:
  assumes "t = replicate n (CHR ''#'') @ CHR '' '' # rest" "1 \<le> n" "n \<le> 6"
  shows "headingFound t"
proof -
  from assms(2,3) consider "n = 1" | "n = 2" | "n = 3" | "n = 4" | "n = 5" | "n = 6" by linarith
  then show ?thesis
    by cases (simp_all add: assms(1) headingFound_def startsWith_def eval_nat_numeral)
qed

lemma highlightHeadline_atx:
  assumes "t = replicate n (CHR ''#'') @ CHR '' '' # rest" "1 \<le> n" "n \<le> 6"
    "CHR ''#'' \<notin> set (take (5 - n) rest)"
  shows "highlightHeadline t s =
    setUserState (currentBlock s) (H1 + int n - 1)
      (setFormat (int n) (int (length t) - int n) (formats s (H1 + int n - 1))
        (setFormat 0 (int (length t))
           (setFontPointSize (fontPointSize (formats s (H1 + int n - 1))) (formats s MaskedSyntax)) s))"
  using headingFound_shape[OF assms(1-3)] countHashes_shape[OF assms(1,3,4)]
  by (simp add: highlightHeadline_def Let_def setCurrentBlockMargin_def setCurrentBlockState_def
      setFormat_def)

lemma setFormat_fields [simp]:
  "document (setFormat a c f s) = document s"
  "currentBlock (setFormat a c f s) = currentBlock s"
  "formats (setFormat a c f s) = formats s"
  "dirtyTextBlocks (setFormat a c f s) = dirtyTextBlocks s"
  "highlightingFinished (setFormat a c f s) = highlightingFinished s"
  "fullyHighlightedBlockQuote (setFormat a c f s) = fullyHighlightedBlockQuote s"
  "formatChanges (setFormat a c f s) = paint a c f (formatChanges s)"
  "isValid b (setFormat a c f s) = isValid b s"
  "text_of b (setFormat a c f s) = text_of b s"
  "userState b (setFormat a c f s) = userState b s"
  by (simp_all add: setFormat_def)

lemma previousBlockState_setFormat [simp]:
  "previousBlockState (setFormat a c f s) = previousBlockState s"
  by (simp add: setFormat_def)

lemma previousBlockState_setUserState_cur:
  "currentBlock s = c \<Longrightarrow> previousBlockState (setUserState c v s) = previousBlockState s"
  by (auto simp: previousBlockState_def previous_def)

lemma previousBlockState_rehighlight:
  "isValid b s \<Longrightarrow>
   previousBlockState (setUserState b v (s\<lparr>currentBlock := b, formatChanges := fc\<rparr>))
     = userState (previous b) s"
  by (simp add: previousBlockState_def previous_def)

lemma rehighlightBlock_atx:
  assumes shape: "t = replicate n (CHR ''#'') @ CHR '' '' # rest" "1 \<le> n" "n \<le> 6"
      "CHR ''#'' \<notin> set (take (5 - n) rest)"
    and b: "isValid b s" "text_of b s = t"
    and post: "list_all (\<lambda>r. gm (pattern r) t = []) highlightingRulesAfter"
    and tail: "\<not> endsWith (trimmed t) ''-->''"
    and prev: "userState (previous b) s \<noteq> Comment" "userState (previous b) s \<noteq> CodeBlock"
      "userState (previous b) s \<noteq> CodeCpp"
    and fm: "text_of firstBlock s \<noteq> ''---'' \<or> userState (previous b) s \<noteq> FrontmatterBlock"
  shows "\<exists>s'. rehighlightBlock gm b s = Inr s' \<and> userState b s' = H1 + int n - 1 \<and>
    formatChanges s' =
      replicate n (setFontPointSize (fontPointSize (formats s (H1 + int n - 1))) (formats s MaskedSyntax))
      @ replicate (length t - n) (formats s (H1 + int n - 1))"
proof -
  define s0 where "s0 = s\<lparr>currentBlock := b, formatChanges := replicate (length t) QTextCharFormat0\<rparr>"
  define sR where "sR = setUserState (currentBlock s0) NoState (setCurrentBlockState NoState s0)"
  define a where "a = highlightAdditionalRules gm (highlightingRulesPre (fullyHighlightedBlockQuote sR)) t sR"
  define h where "h = highlightHeadline t a"
  have sR: "currentBlock sR = b" "formats sR = formats s" "length (formatChanges sR) = length t"
    "previousBlockState sR = userState (previous b) s" "isValid b sR"
    "text_of firstBlock sR = text_of firstBlock s"
    using b(1) by (simp_all add: sR_def s0_def setCurrentBlockState_def previousBlockState_def previous_def)
  have oc: "onlyCurrent sR a"
    unfolding a_def by (rule onlyCurrent_highlightAdditionalRules) simp
  note af = onlyCurrent_fields[OF oc]
  have ne: "t \<noteq> []" using shape(1) by simp
  have n_le: "n \<le> length t" using shape(1) by simp
  have hd: "h = setUserState (currentBlock a) (H1 + int n - 1)
      (setFormat (int n) (int (length t) - int n) (formats a (H1 + int n - 1))
        (setFormat 0 (int (length t))
           (setFontPointSize (fontPointSize (formats a (H1 + int n - 1))) (formats a MaskedSyntax)) a))"
    unfolding h_def by (rule highlightHeadline_atx[OF shape])
  have "highlightAdditionalRules gm highlightingRulesAfter t h = h"
    using post by (rule no_matches_rules)
  then have p1: "phase1 gm t sR = h"
    using ne by (simp add: phase1_def h_def a_def)
  have ph: "previousBlockState h = userState (previous b) s"
    unfolding hd using af(9) sR(4)
    by (simp add: previousBlockState_setUserState_cur)
  have th: "text_of firstBlock h = text_of firstBlock s"
    unfolding hd using af(7)[of firstBlock] sR(6) by (simp add: setFormat_def)
  obtain r' where tr: "trimmed t = CHR ''#'' # r'"
  proof -
    from shape(1,2) obtain r where "t = CHR ''#'' # r" by (cases n) auto
    moreover have "\<not> isSpace (CHR ''#'')" by (simp add: isSpace_def)
    ultimately show ?thesis using trimmed_Cons[of "CHR ''#''" r] that by auto
  qed
  have nf: "\<not> startsWith t ''```''" "t \<noteq> ''---''"
    using shape(1,2) by (cases n; simp add: startsWith_def)+
  have nc: "\<not> startsWith (trimmed t) ''<!--''"
    by (simp add: tr startsWith_def)
  note tl = tail_untouched[of t h, OF nc tail]
  have c: "highlightCommentBlock t h = h" and d: "highlightCodeBlock t h = Inr h"
    and e: "highlightFrontmatterBlock t h = h"
    using fm nf prev by (auto intro!: tl simp: ph th)
  have "highlightBlock gm t s0 = Inr (h\<lparr>highlightingFinished := True\<rparr>)"
    by (simp add: highlightBlock_def highlightMarkdown_phase1 sR_def[symmetric] p1 c d e)
  then have r: "rehighlightBlock gm b s = Inr (h\<lparr>highlightingFinished := True\<rparr>)"
    using b by (simp add: rehighlightBlock_def s0_def)
  have st: "userState b (h\<lparr>highlightingFinished := True\<rparr>) = H1 + int n - 1"
    unfolding hd using af(8)[of b] sR(5) by (simp add: af(2) sR(1) setFormat_def)
  have fc: "formatChanges (h\<lparr>highlightingFinished := True\<rparr>) =
      replicate n (setFontPointSize (fontPointSize (formats s (H1 + int n - 1))) (formats s MaskedSyntax))
      @ replicate (length t - n) (formats s (H1 + int n - 1))"
    unfolding hd using af(6) sR(3) n_le
    by (simp add: setFormat_def af(1) sR(2) paint_head_tail)
  from r st fc show ?thesis by blast
qed

lemma paint_Cons:
  "paint a c f (x # xs) =
     (if a < 0 then x # xs
      else if a = 0 then (if c > 0 then f # paint 0 (c - 1) f xs else x # xs)
      else x # paint (a - 1) c f xs)"
proof (rule nth_equalityI)
  show "length (paint a c f (x # xs)) =
    length (if a < 0 then x # xs
      else if a = 0 then (if c > 0 then f # paint 0 (c - 1) f xs else x # xs)
      else x # paint (a - 1) c f xs)"
    by simp
next
  fix k assume "k < length (paint a c f (x # xs))"
  then have k: "k < Suc (length xs)" by simp
  show "paint a c f (x # xs) ! k =
    (if a < 0 then x # xs
      else if a = 0 then (if c > 0 then f # paint 0 (c - 1) f xs else x # xs)
      else x # paint (a - 1) c f xs) ! k"
  proof (cases k)
    case 0
    then show ?thesis by (auto simp: nth_paint)
  next
    case (Suc j)
    with k have "j < length xs" by simp
    with Suc show ?thesis by (auto simp: nth_paint)
  qed
qed

lemmas eval_paint = paint_Cons paint_Nil

text \<open>
  C1. For a line that starts with \<open>n\<close> characters \<open>#\<close>, \<open>n\<close> from 1 to 6, and a space,
  and has no other \<open>#\<close> among its first six characters, \<^verbatim>\<open>highlightHeadline\<close> first
  paints the whole line with the masked format (in the point size of the heading), then
  paints everything behind the \<open>n\<close> hashes, the space included, with the format of the
  heading of level \<open>n\<close>, and sets the state of the line to that level. With no match of
  the later rules, a previous state that is not \<open>Comment\<close>, \<open>CodeBlock\<close> or \<open>CodeCpp\<close>
  (nor \<open>FrontmatterBlock\<close> in a document that starts with \<open>---\<close>) and a line that does
  not end with \<^verbatim>\<open>-->\<close>, this is what highlighting the block ends with: the hashes
  masked, the rest as heading, the state of the heading. For \<^verbatim>\<open># Title\<close>: one masked
  character, six characters of \<open>H1\<close>, state \<open>H1\<close>.
\<close>

theorem atx_heading:
  assumes "text = replicate n (CHR ''#'') @ CHR '' '' # rest" "1 \<le> n" "n \<le> 6"
    "CHR ''#'' \<notin> set (take (5 - n) rest)"
  shows
   "highlightHeadline text s =
      setUserState (currentBlock s) (H1 + int n - 1)
        (setFormat (int n) (int (length text) - int n) (formats s (H1 + int n - 1))
          (setFormat 0 (int (length text))
             (setFontPointSize (fontPointSize (formats s (H1 + int n - 1))) (formats s MaskedSyntax))
             s)) \<and>
    (isValid b s \<and> text_of b s = text \<and>
     list_all (\<lambda>r. gm (pattern r) text = []) highlightingRulesAfter \<and>
     \<not> endsWith (trimmed text) ''-->'' \<and>
     userState (previous b) s \<noteq> Comment \<and> userState (previous b) s \<noteq> CodeBlock \<and>
     userState (previous b) s \<noteq> CodeCpp \<and>
     (text_of firstBlock s \<noteq> ''---'' \<or> userState (previous b) s \<noteq> FrontmatterBlock)
     \<longrightarrow> (\<exists>s'. rehighlightBlock gm b s = Inr s' \<and> userState b s' = H1 + int n - 1 \<and>
            formatChanges s' =
              replicate n (setFontPointSize (fontPointSize (formats s (H1 + int n - 1)))
                             (formats s MaskedSyntax))
              @ replicate (length text - n) (formats s (H1 + int n - 1))))"
  using highlightHeadline_atx[OF assms, of s] rehighlightBlock_atx[OF assms, of b s gm]
  by blast

theorem atx_heading_witness:
  "''# Title'' = replicate 1 (CHR ''#'') @ CHR '' '' # ''Title'' \<and>
   isValid 0 (newHighlighter [''# Title'']) \<and>
   list_all (\<lambda>r. noMatches (pattern r) ''# Title'' = []) highlightingRulesAfter \<and>
   (\<exists>s'. rehighlightBlock noMatches 0 (newHighlighter [''# Title'']) = Inr s' \<and>
      userState 0 s' = H1 \<and>
      formatChanges s' =
        [setFontPointSize (fontPointSize (exampleFormats H1)) (exampleFormats MaskedSyntax),
         exampleFormats H1, exampleFormats H1, exampleFormats H1, exampleFormats H1,
         exampleFormats H1, exampleFormats H1])"
proof -
  let ?s = "newHighlighter [''# Title'']"
  have shape: "''# Title'' = replicate 1 (CHR ''#'') @ CHR '' '' # ''Title''" by simp
  have n: "1 \<le> (1::nat)" "(1::nat) \<le> 6" "CHR ''#'' \<notin> set (take (5 - 1) ''Title'')"
    by simp_all
  have pre: "isValid 0 ?s" "text_of 0 ?s = ''# Title''"
    "list_all (\<lambda>r. noMatches (pattern r) ''# Title'' = []) highlightingRulesAfter"
    "\<not> endsWith (trimmed ''# Title'') ''-->''"
    "userState (previous 0) ?s \<noteq> Comment" "userState (previous 0) ?s \<noteq> CodeBlock"
    "userState (previous 0) ?s \<noteq> CodeCpp"
    "text_of firstBlock ?s \<noteq> ''---''"
    by (simp_all add: isValid_def text_of_def newHighlighter_def noMatches_def list_all_iff
        endsWith_def trimmed_def isSpace_def userState_def previous_def firstBlock_def
        HighlighterState_defs)
  from atx_heading[OF shape n, of ?s 0 noMatches] pre
  have "\<exists>s'. rehighlightBlock noMatches 0 ?s = Inr s' \<and> userState 0 s' = H1 + int 1 - 1 \<and>
      formatChanges s' =
        replicate 1 (setFontPointSize (fontPointSize (formats ?s (H1 + int 1 - 1))) (formats ?s MaskedSyntax))
        @ replicate (length ''# Title'' - 1) (formats ?s (H1 + int 1 - 1))"
    by blast
  then have "\<exists>s'. rehighlightBlock noMatches 0 ?s = Inr s' \<and> userState 0 s' = H1 \<and>
      formatChanges s' =
        [setFontPointSize (fontPointSize (exampleFormats H1)) (exampleFormats MaskedSyntax),
         exampleFormats H1, exampleFormats H1, exampleFormats H1, exampleFormats H1,
         exampleFormats H1, exampleFormats H1]"
    by (simp add: newHighlighter_def)
  with shape pre(1,3) show ?thesis by blast
qed

text \<open>
  On \<^verbatim>\<open># Title\<close> the masked format stays on the hash alone: the space behind it
  carries the format of \<open>H1\<close>, as the five letters do.
\<close>

theorem atx_heading_space_counterexample:
  "rehighlightBlock noMatches 0 (newHighlighter [''# Title'']) =
     Inr ((newHighlighter [''# Title''])
       \<lparr>document := [\<lparr>blockText = ''# Title'', blockUserState = H1\<rparr>],
        formatChanges :=
          [setFontPointSize 19.2 (exampleFormats MaskedSyntax), exampleFormats H1,
           exampleFormats H1, exampleFormats H1, exampleFormats H1, exampleFormats H1,
           exampleFormats H1],
        highlightingFinished := True\<rparr>) \<and>
   exampleFormats H1 \<noteq> setFontPointSize 19.2 (exampleFormats MaskedSyntax) \<and>
   exampleFormats H1 \<noteq> exampleFormats MaskedSyntax"
  by (simp add: eval_defs countHashes_def setCurrentBlockMargin_def eval_paint
      exampleFormats_def fontPointSize_def setFontPointSize_def QTextCharFormat0_def)

lemma document_rulesAfter [simp]:
  "document (highlightAdditionalRules gm highlightingRulesAfter t s) = document s"
proof -
  have "list_all (\<lambda>r. \<not> useStateAsCurrentBlockState r) rules \<Longrightarrow>
    document (highlightAdditionalRules gm rules t s) = document s" for rules
    unfolding highlightAdditionalRules_def
    by (induction rules arbitrary: s) (auto simp: applyRule_def Let_def)
  then show ?thesis
    by (simp add: highlightingRulesAfter_def HighlightingRule_def)
qed

lemma rulesAfter_fields [simp]:
  "userState b (highlightAdditionalRules gm highlightingRulesAfter t s) = userState b s"
  "previousBlockState (highlightAdditionalRules gm rules t s) = previousBlockState s"
  "text_of b (highlightAdditionalRules gm rules t s) = text_of b s"
  "isValid b (highlightAdditionalRules gm rules t s) = isValid b s"
  "formats (highlightAdditionalRules gm rules t s) = formats s"
  "currentBlock (highlightAdditionalRules gm rules t s) = currentBlock s"
  "dirtyTextBlocks (highlightAdditionalRules gm rules t s) = dirtyTextBlocks s"
  "length (formatChanges (highlightAdditionalRules gm rules t s)) = length (formatChanges s)"
  "fullyHighlightedBlockQuote (highlightAdditionalRules gm rules t s) = fullyHighlightedBlockQuote s"
  "highlightingFinished (highlightAdditionalRules gm rules t s) = highlightingFinished s"
proof -
  have oc: "onlyCurrent s (highlightAdditionalRules gm rules t s)" for rules
    by (rule onlyCurrent_highlightAdditionalRules) simp
  show "userState b (highlightAdditionalRules gm highlightingRulesAfter t s) = userState b s"
    by (rule userState_document) simp
  show "previousBlockState (highlightAdditionalRules gm rules t s) = previousBlockState s"
    "text_of b (highlightAdditionalRules gm rules t s) = text_of b s"
    "isValid b (highlightAdditionalRules gm rules t s) = isValid b s"
    "formats (highlightAdditionalRules gm rules t s) = formats s"
    "currentBlock (highlightAdditionalRules gm rules t s) = currentBlock s"
    "dirtyTextBlocks (highlightAdditionalRules gm rules t s) = dirtyTextBlocks s"
    "length (formatChanges (highlightAdditionalRules gm rules t s)) = length (formatChanges s)"
    "fullyHighlightedBlockQuote (highlightAdditionalRules gm rules t s) = fullyHighlightedBlockQuote s"
    "highlightingFinished (highlightAdditionalRules gm rules t s) = highlightingFinished s"
    using onlyCurrent_fields[OF oc] by simp_all
qed





lemma dirty_addDirtyBlock_cong:
  "dirtyTextBlocks a = dirtyTextBlocks s \<Longrightarrow>
   dirtyTextBlocks (addDirtyBlock b a) = dirtyTextBlocks (addDirtyBlock b s)"
  by (simp add: addDirtyBlock_def)






lemmas scan_simps = forLoop.simps whileNotLetter.simps stringLoop.simps charLoop.simps
  whileBody_def literals_def endOfBody_def besideLetter_def blockComment_def at'_def
  isLetter_def isNumber_def midRef_def loadCppData_def Let_def eval_paint

lemma scan_example:
  "forLoop ''int x = 1;'' loadCppData
     \<lparr>scan_i = 0, scan_f = f, scan_fc = [f, f, f, f, f, f, f, f, f, f]\<rparr> =
   Inr \<lparr>scan_i = 9, scan_f = setForeground darkYellow (setForeground darkBlue f),
        scan_fc = [setForeground darkBlue f, setForeground darkBlue f, setForeground darkBlue f,
           f, f, f, f, f, setForeground darkYellow (setForeground darkBlue f), f]\<rparr>"
  by (simp add: scan_simps)

lemma onlyCurrent_setUserState_cur:
  "onlyCurrent s s' \<Longrightarrow> currentBlock s' = c \<Longrightarrow> onlyCurrent s (setUserState c v s')"
  using onlyCurrent_step(2)[of s s' v]
  by (auto simp: setCurrentBlockState_def)

lemma onlyCurrent_highlightHeadline_text:
  assumes "\<not> hasOnlyHeadChars t (CHR ''='')" "\<not> hasOnlyHeadChars t (CHR ''-'')"
  shows "onlyCurrent s s' \<Longrightarrow> onlyCurrent s (highlightHeadline t s')"
  using assms
  by (auto simp: highlightHeadline_def Let_def setCurrentBlockMargin_def setCurrentBlockState_def
      intro!: onlyCurrent_setUserState_cur onlyCurrent_step(1))

lemma onlyCurrent_highlightHeadline_prev:
  assumes "previousBlockState s' \<noteq> H1" "previousBlockState s' \<noteq> H2"
    "previousBlockState s' \<noteq> NoState"
  shows "onlyCurrent s s' \<Longrightarrow> onlyCurrent s (highlightHeadline t s')"
  using assms
  by (auto simp: highlightHeadline_def setextUnderline_def Let_def setCurrentBlockMargin_def
      setCurrentBlockState_def
      intro!: onlyCurrent_setUserState_cur onlyCurrent_step(1))

lemma onlyCurrent_phase1:
  assumes "(\<not> hasOnlyHeadChars t (CHR ''='') \<and> \<not> hasOnlyHeadChars t (CHR ''-'')) \<or>
    (previousBlockState s \<noteq> H1 \<and> previousBlockState s \<noteq> H2 \<and> previousBlockState s \<noteq> NoState)"
  shows "onlyCurrent s (phase1 gm t s)"
proof -
  define a where "a = highlightAdditionalRules gm (highlightingRulesPre (fullyHighlightedBlockQuote s)) t s"
  have oa: "onlyCurrent s a"
    unfolding a_def by (rule onlyCurrent_highlightAdditionalRules) simp
  have "previousBlockState a = previousBlockState s"
    by (simp add: a_def)
  with assms oa have "onlyCurrent s (highlightHeadline t a)"
    by (auto intro: onlyCurrent_highlightHeadline_text onlyCurrent_highlightHeadline_prev)
  then have "onlyCurrent s (highlightAdditionalRules gm highlightingRulesAfter t (highlightHeadline t a))"
    by (rule onlyCurrent_highlightAdditionalRules)
  then show ?thesis
    by (simp add: phase1_def a_def)
qed

text \<open>The state in which \<^verbatim>\<open>rehighlightBlock\<close> calls \<^verbatim>\<open>highlightMarkdown\<close>.\<close>

definition resetBlock :: "QTextBlock \<Rightarrow> highlighter \<Rightarrow> highlighter" where
  "resetBlock b s =
     setUserState b NoState
       (s\<lparr>currentBlock := b,
          formatChanges := replicate (length (text_of b s)) QTextCharFormat0\<rparr>)"

lemma rehighlightBlock_resetBlock:
  "isValid b s \<Longrightarrow>
   rehighlightBlock gm b s =
     (case highlightMarkdown gm (text_of b s) (resetBlock b s) of
        Inl e \<Rightarrow> Inl e | Inr s' \<Rightarrow> Inr (s'\<lparr>highlightingFinished := True\<rparr>))"
  by (simp add: rehighlightBlock_def highlightBlock_def resetBlock_def setCurrentBlockState_def)

lemma resetBlock_fields [simp]:
  "currentBlock (resetBlock b s) = b"
  "formats (resetBlock b s) = formats s"
  "dirtyTextBlocks (resetBlock b s) = dirtyTextBlocks s"
  "fullyHighlightedBlockQuote (resetBlock b s) = fullyHighlightedBlockQuote s"
  "highlightingFinished (resetBlock b s) = highlightingFinished s"
  "formatChanges (resetBlock b s) = replicate (length (text_of b s)) QTextCharFormat0"
  "isValid c (resetBlock b s) = isValid c s"
  "text_of c (resetBlock b s) = text_of c s"
  "userState c (resetBlock b s) = (if c = b \<and> isValid b s then NoState else userState c s)"
  by (simp_all add: resetBlock_def)

lemma previousBlockState_resetBlock [simp]:
  "isValid b s \<Longrightarrow> previousBlockState (resetBlock b s) = userState (previous b) s"
  by (simp add: previousBlockState_def previous_def)

lemma fence_not_headChars:
  "startsWith t ''```'' \<Longrightarrow> \<not> hasOnlyHeadChars t (CHR ''='') \<and> \<not> hasOnlyHeadChars t (CHR ''-'')
     \<and> t \<noteq> [] \<and> t \<noteq> ''---''"
  by (cases t) (auto simp: startsWith_def hasOnlyHeadChars_def)

lemma rehighlightBlock_fence:
  assumes b: "isValid b s" "text_of b s = t" and f: "startsWith t ''```''"
    and fm: "text_of firstBlock s \<noteq> ''---'' \<or> userState (previous b) s \<noteq> FrontmatterBlock"
  shows "\<exists>s'. rehighlightBlock gm b s = Inr s' \<and>
    userState b s' =
      (if userState (previous b) s \<noteq> CodeBlock \<and> userState (previous b) s < 200
       then (if drop 3 t = ''cpp'' then CodeCpp else if drop 3 t = ''js'' then CodeJs else CodeBlock)
       else CodeBlockEnd) \<and>
    formatChanges s' = replicate (length t) (fenceFormats (formats s) MaskedSyntax) \<and>
    formats s' = fenceFormats (formats s) \<and>
    (\<forall>c. c \<noteq> b \<longrightarrow> userState c s' = userState c s) \<and>
    (\<forall>c. text_of c s' = text_of c s) \<and> (\<forall>c. isValid c s' = isValid c s) \<and>
    dirtyTextBlocks s' = dirtyTextBlocks s"
proof -
  define sR where "sR = resetBlock b s"
  define y where "y = highlightCommentBlock t (phase1 gm t sR)"
  note nh = fence_not_headChars[OF f]
  have "onlyCurrent sR (phase1 gm t sR)"
    using nh by (intro onlyCurrent_phase1) simp
  then have oy: "onlyCurrent sR y"
    unfolding y_def by (rule onlyCurrent_highlightCommentBlock)
  note yf = onlyCurrent_fields[OF oy]
  have py: "previousBlockState y = userState (previous b) s"
    using yf(9) b(1) by (simp add: sR_def)
  define X where "X = (if userState (previous b) s \<noteq> CodeBlock \<and> userState (previous b) s < 200
       then (if drop 3 t = ''cpp'' then CodeCpp else if drop 3 t = ''js'' then CodeJs else CodeBlock)
       else CodeBlockEnd)"
  define w where "w = (setCurrentBlockState X y)
         \<lparr>formats := fenceFormats (formats s),
          formatChanges := replicate (length t) (fenceFormats (formats s) MaskedSyntax)\<rparr>"
  have mr: "midRef t 3 (int (length t)) = drop 3 t"
    by (simp add: midRef_def)
  have ly: "length (formatChanges y) = length t"
    using yf(6) b(2) by (simp add: sR_def)
  have cb: "highlightCodeBlock t y = Inr w"
    unfolding highlightCodeBlock_fence[OF f] w_def X_def py mr
    using ly nh yf(1) by (simp add: paint_all sR_def)
  have wf: "text_of firstBlock w = text_of firstBlock s" "previousBlockState w = userState (previous b) s"
    using yf(7)[of firstBlock] py yf(2)
    by (simp_all add: w_def setCurrentBlockState_def sR_def previousBlockState_setUserState_cur)
  have fw: "highlightFrontmatterBlock t w = w"
    using fm nh by (auto simp: highlightFrontmatterBlock_def wf)
  have r: "rehighlightBlock gm b s = Inr (w\<lparr>highlightingFinished := True\<rparr>)"
    using b cb fw
    by (simp add: rehighlightBlock_resetBlock highlightMarkdown_phase1 sR_def[symmetric] y_def[symmetric])
  have "userState b w = X" "\<And>c. c \<noteq> b \<Longrightarrow> userState c w = userState c s"
    "\<And>c. text_of c w = text_of c s" "\<And>c. isValid c w = isValid c s"
    "dirtyTextBlocks w = dirtyTextBlocks s" "formats w = fenceFormats (formats s)"
    "formatChanges w = replicate (length t) (fenceFormats (formats s) MaskedSyntax)"
    using yf(2,3,7,8,10) b(1)
    by (simp_all add: w_def setCurrentBlockState_def sR_def)
  with r show ?thesis
    unfolding X_def by simp
qed

lemma rehighlightBlock_cpp:
  assumes b: "isValid b s" "text_of b s = t" and nf: "\<not> startsWith t ''```''"
    and prev: "userState (previous b) s = CodeCpp" and ne: "t \<noteq> []"
  shows "\<exists>s' sc. rehighlightBlock gm b s = Inr s' \<and> userState b s' = CodeCpp \<and>
    forLoop t loadCppData
      \<lparr>scan_i = 0, scan_f = formats s CodeBlock,
       scan_fc = replicate (length t) (formats s CodeBlock)\<rparr> = Inr sc \<and>
    formatChanges s' = scan_fc sc \<and>
    formats s' = formats s \<and>
    (\<forall>c. c \<noteq> b \<longrightarrow> userState c s' = userState c s) \<and>
    (\<forall>c. text_of c s' = text_of c s) \<and> (\<forall>c. isValid c s' = isValid c s) \<and>
    dirtyTextBlocks s' = dirtyTextBlocks s"
proof -
  define sR where "sR = resetBlock b s"
  define y where "y = highlightCommentBlock t (phase1 gm t sR)"
  define z where "z = setCurrentBlockState CodeCpp y"
  have pR: "previousBlockState sR = CodeCpp"
    using b(1) prev by (simp add: sR_def)
  have "onlyCurrent sR (phase1 gm t sR)"
    by (intro onlyCurrent_phase1) (simp add: pR HighlighterState_defs)
  then have oy: "onlyCurrent sR y"
    unfolding y_def by (rule onlyCurrent_highlightCommentBlock)
  then have oz: "onlyCurrent sR z"
    unfolding z_def by (rule onlyCurrent_step)
  note zf = onlyCurrent_fields[OF oz]
  have py: "previousBlockState y = CodeCpp"
    using onlyCurrent_fields(9)[OF oy] pR by simp
  have cz: "currentBlockState z = CodeCpp"
    using onlyCurrent_fields(2)[OF oy] onlyCurrent_fields(8)[OF oy, of b] b(1)
    by (simp add: z_def currentBlockState_def setCurrentBlockState_def sR_def)
  have lz: "length (formatChanges z) = length t"
    using zf(6) b(2) by (simp add: sR_def)
  let ?f = "formats s CodeBlock"
  have fz: "formats z = formats s" using zf(1) by (simp add: sR_def)
  obtain sc where sc: "forLoop t loadCppData
      \<lparr>scan_i = 0, scan_f = ?f, scan_fc = replicate (length t) ?f\<rparr> = Inr sc"
    using forLoop_ok[of "\<lparr>scan_i = 0, scan_f = ?f, scan_fc = replicate (length t) ?f\<rparr>" t loadCppData]
    by auto
  define w where "w = z\<lparr>formatChanges := scan_fc sc\<rparr>"
  have hs: "highlightSyntax t z = Inr w"
    using ne sc lz by (simp add: highlightSyntax_def Let_def cz fz paint_all w_def)
  have cb: "highlightCodeBlock t y = Inr w"
    using nf hs by (simp add: highlightCodeBlock_def py z_def HighlighterState_defs)
  have vp: "isValid (previous b) s"
    using prev by (auto simp: userState_def CodeCpp_def split: if_splits)
  then have b0: "firstBlock \<noteq> b"
    by (auto simp: isValid_def previous_def firstBlock_def)
  have pw: "previousBlockState w = CodeCpp" "currentBlock w = b"
    using zf(9) pR zf(2) by (simp_all add: w_def sR_def)
  have fw: "highlightFrontmatterBlock t w = w"
    using b0 by (auto simp: highlightFrontmatterBlock_def pw HighlighterState_defs)
  have r: "rehighlightBlock gm b s = Inr (w\<lparr>highlightingFinished := True\<rparr>)"
    using b cb fw
    by (simp add: rehighlightBlock_resetBlock highlightMarkdown_phase1 sR_def[symmetric] y_def[symmetric])
  have "userState b w = CodeCpp" "\<And>c. c \<noteq> b \<Longrightarrow> userState c w = userState c s"
    "\<And>c. text_of c w = text_of c s" "\<And>c. isValid c w = isValid c s"
    "dirtyTextBlocks w = dirtyTextBlocks s" "formats w = formats s"
    "formatChanges w = scan_fc sc"
    using cz zf(1,2,3,7,8,10) b(1)
    by (simp_all add: w_def currentBlockState_def sR_def)
  with r sc show ?thesis by auto
qed

text \<open>
  C3. The three lines \<^verbatim>\<open>```cpp\<close>, \<^verbatim>\<open>int x = 1;\<close> and \<^verbatim>\<open>```\<close>, highlighted in
  order from a document in which no block has a state yet, with any table of formats and
  whatever the rules match: the first line ends in the state \<open>CodeCpp\<close> and carries the
  masked format all over; the second line carries the format of types on \<^verbatim>\<open>int\<close> and
  the format of numbers on \<^verbatim>\<open>1\<close> (the format of code blocks with a dark blue and
  a dark yellow foreground), the format of code blocks elsewhere; the third line ends in
  the state \<open>CodeBlockEnd\<close>. In general \<^verbatim>\<open>highlightCodeBlock\<close>, on a line that starts
  with three backticks, paints the line with the masked format and sets its state: to
  \<open>CodeBlockEnd\<close> when the previous state is \<open>CodeBlock\<close> or at least 200, and else
  to \<open>CodeCpp\<close> for the tag \<open>cpp\<close>, \<open>CodeJs\<close> for the tag \<open>js\<close>, \<open>CodeBlock\<close> for
  any other rest of the line.
\<close>

theorem fenced_code_block:
  "(\<exists>s1 s2 s3.
      rehighlightBlock gm 0
        ((newHighlighter [''```cpp'', ''int x = 1;'', ''```''])\<lparr>formats := T\<rparr>) = Inr s1 \<and>
      userState 0 s1 = CodeCpp \<and>
      formatChanges s1 = replicate (length ''```cpp'')
         (setFontPointSize (fontPointSize (T CodeBlock)) (T MaskedSyntax)) \<and>
      rehighlightBlock gm 1 s1 = Inr s2 \<and>
      userState 1 s2 = CodeCpp \<and>
      formatChanges s2 =
        [setForeground darkBlue (T CodeBlock), setForeground darkBlue (T CodeBlock),
         setForeground darkBlue (T CodeBlock), T CodeBlock, T CodeBlock, T CodeBlock,
         T CodeBlock, T CodeBlock, setForeground darkYellow (T CodeBlock), T CodeBlock] \<and>
      rehighlightBlock gm 2 s2 = Inr s3 \<and>
      userState 2 s3 = CodeBlockEnd) \<and>
   (startsWith text ''```'' \<and> isValid (currentBlock s) s \<longrightarrow>
      (\<exists>s'. highlightCodeBlock text s = Inr s' \<and>
         formatChanges s' =
           paint 0 (int (length text)) (formats s' MaskedSyntax) (formatChanges s) \<and>
         currentBlockState s' =
           (if previousBlockState s = CodeBlock \<or> previousBlockState s \<ge> 200 then CodeBlockEnd
            else if drop 3 text = ''cpp'' then CodeCpp
            else if drop 3 text = ''js'' then CodeJs
            else CodeBlock)))"
proof (intro conjI impI)
  let ?s0 = "(newHighlighter [''```cpp'', ''int x = 1;'', ''```''])\<lparr>formats := T\<rparr>"
  have s0: "isValid 0 ?s0" "text_of 0 ?s0 = ''```cpp''" "text_of firstBlock ?s0 = ''```cpp''"
    "userState (previous 0) ?s0 = -1" "text_of 1 ?s0 = ''int x = 1;''" "text_of 2 ?s0 = ''```''"
    "isValid 1 ?s0" "isValid 2 ?s0" "formats ?s0 = T"
    by (simp_all add: isValid_def text_of_def userState_def previous_def firstBlock_def
        newHighlighter_def)
  have f: "startsWith ''```cpp'' ''```''" "startsWith ''```'' ''```''"
    "\<not> startsWith ''int x = 1;'' ''```''"
    by (simp_all add: startsWith_def)
  from rehighlightBlock_fence[of 0 ?s0 "''```cpp''" gm, OF s0(1,2) f(1)] s0(3,4)
  obtain s1 where s1: "rehighlightBlock gm 0 ?s0 = Inr s1" "userState 0 s1 = CodeCpp"
    "formatChanges s1 = replicate (length ''```cpp'') (fenceFormats T MaskedSyntax)"
    "formats s1 = fenceFormats T" "\<And>c. text_of c s1 = text_of c ?s0"
    "\<And>c. isValid c s1 = isValid c ?s0"
    by (auto simp: HighlighterState_defs s0(9))
  have p1: "userState (previous 1) s1 = CodeCpp" using s1(2) by (simp add: previous_def)
  from rehighlightBlock_cpp[of 1 s1 "''int x = 1;''" gm] s1(5,6) s0(5,7) f(3) p1
  obtain s2 sc where s2: "rehighlightBlock gm 1 s1 = Inr s2" "userState 1 s2 = CodeCpp"
    "forLoop ''int x = 1;'' loadCppData
      \<lparr>scan_i = 0, scan_f = formats s1 CodeBlock,
       scan_fc = replicate (length ''int x = 1;'') (formats s1 CodeBlock)\<rparr> = Inr sc"
    "formatChanges s2 = scan_fc sc" "\<And>c. text_of c s2 = text_of c s1"
    "\<And>c. isValid c s2 = isValid c s1"
    by auto
  have cbf: "formats s1 CodeBlock = T CodeBlock"
    by (simp add: s1(4) fenceFormats_def HighlighterState_defs)
  have fc2: "formatChanges s2 =
        [setForeground darkBlue (T CodeBlock), setForeground darkBlue (T CodeBlock),
         setForeground darkBlue (T CodeBlock), T CodeBlock, T CodeBlock, T CodeBlock,
         T CodeBlock, T CodeBlock, setForeground darkYellow (T CodeBlock), T CodeBlock]"
    using s2(3) unfolding cbf s2(4)
    by (auto simp: scan_example[of "T CodeBlock"] setForeground_def)
  have p2: "userState (previous 2) s2 = CodeCpp" using s2(2) by (simp add: previous_def)
  have t2: "text_of firstBlock s2 \<noteq> ''---''"
    using s0(3) by (simp add: s2(5) s1(5))
  from rehighlightBlock_fence[of 2 s2 "''```''" gm, OF _ _ f(2)] t2 p2
  obtain s3 where s3: "rehighlightBlock gm 2 s2 = Inr s3" "userState 2 s3 = CodeBlockEnd"
    using s0(6,8) by (auto simp: HighlighterState_defs s2(5,6) s1(5,6))
  show "\<exists>s1 s2 s3.
      rehighlightBlock gm 0 ?s0 = Inr s1 \<and>
      userState 0 s1 = CodeCpp \<and>
      formatChanges s1 = replicate (length ''```cpp'')
         (setFontPointSize (fontPointSize (T CodeBlock)) (T MaskedSyntax)) \<and>
      rehighlightBlock gm 1 s1 = Inr s2 \<and>
      userState 1 s2 = CodeCpp \<and>
      formatChanges s2 =
        [setForeground darkBlue (T CodeBlock), setForeground darkBlue (T CodeBlock),
         setForeground darkBlue (T CodeBlock), T CodeBlock, T CodeBlock, T CodeBlock,
         T CodeBlock, T CodeBlock, setForeground darkYellow (T CodeBlock), T CodeBlock] \<and>
      rehighlightBlock gm 2 s2 = Inr s3 \<and>
      userState 2 s3 = CodeBlockEnd"
    using s1(1,2,3) s2(1,2) fc2 s3
    by (intro exI[of _ s1] exI[of _ s2] exI[of _ s3]) (simp add: fenceFormats_def)
next
  assume a: "startsWith text ''```'' \<and> isValid (currentBlock s) s"
  then have f: "startsWith text ''```''" and v: "isValid (currentBlock s) s" by simp_all
  show "\<exists>s'. highlightCodeBlock text s = Inr s' \<and>
         formatChanges s' =
           paint 0 (int (length text)) (formats s' MaskedSyntax) (formatChanges s) \<and>
         currentBlockState s' =
           (if previousBlockState s = CodeBlock \<or> previousBlockState s \<ge> 200 then CodeBlockEnd
            else if drop 3 text = ''cpp'' then CodeCpp
            else if drop 3 text = ''js'' then CodeJs
            else CodeBlock)"
    unfolding highlightCodeBlock_fence[OF f] using v
    by (auto simp: currentBlockState_def setCurrentBlockState_def midRef_def)
qed

theorem fenced_code_block_witness:
  "startsWith ''```js'' ''```'' \<and>
   isValid (currentBlock (newHighlighter [''```js''])) (newHighlighter [''```js'']) \<and>
   (\<exists>s'. highlightCodeBlock ''```js'' (newHighlighter [''```js'']) = Inr s' \<and>
      currentBlockState s' = CodeJs)"
proof -
  let ?s = "newHighlighter [''```js'']"
  have h: "startsWith ''```js'' ''```''" "isValid (currentBlock ?s) ?s"
    by (simp_all add: startsWith_def isValid_def newHighlighter_def)
  have p: "previousBlockState ?s = -1"
    by (simp add: previousBlockState_def previous_def userState_def isValid_def newHighlighter_def)
  from fenced_code_block[of noMatches exampleFormats "''```js''" ?s] h
  obtain s' where "highlightCodeBlock ''```js'' ?s = Inr s'"
    "currentBlockState s' =
           (if previousBlockState ?s = CodeBlock \<or> previousBlockState ?s \<ge> 200 then CodeBlockEnd
            else if drop 3 ''```js'' = ''cpp'' then CodeCpp
            else if drop 3 ''```js'' = ''js'' then CodeJs
            else CodeBlock)"
    by blast
  then have "\<exists>s'. highlightCodeBlock ''```js'' ?s = Inr s' \<and> currentBlockState s' = CodeJs"
    by (simp add: p HighlighterState_defs)
  with h show ?thesis by blast
qed

lemma stringLoop_unterminated:
  "0 \<le> i \<Longrightarrow> i + 1 < int (length t) \<Longrightarrow> CHR 0x22 \<notin> set (drop (nat i) t) \<Longrightarrow>
   stringLoop t i cnt = Inr (int (length t) - 1, cnt + (int (length t) - i))"
proof (induction t i cnt rule: stringLoop.induct)
  case (1 t i cnt)
  from "1.prems" have lt: "i < int (length t)" and c: "at' t i = Inr (t ! nat i)"
    by (simp_all add: at'_ok)
  have "t ! nat i \<in> set (drop (nat i) t)"
    using "1.prems"(1) lt by (metis Cons_nth_drop_Suc list.set_intros(1) nat_less_iff of_nat_less_iff nat_int zless_nat_conj)
  with "1.prems"(3) have nq: "t ! nat i \<noteq> CHR 0x22" by auto
  show ?case
  proof (cases "(i + 1) + 1 \<ge> int (length t)")
    case True
    with "1.prems"(2) lt c nq show ?thesis
      by (subst stringLoop.simps) simp
  next
    case False
    have "set (drop (nat (i + 1)) t) \<subseteq> set (drop (nat i) t)"
      using "1.prems"(1) by (metis set_drop_subset_set_drop nat_mono add_increasing2 zero_less_one_class.zero_le_one order_refl)
    with "1.prems"(3) have "CHR 0x22 \<notin> set (drop (nat (i + 1)) t)" by auto
    with "1.IH"[OF lt c nq] False "1.prems"(1)
    have "stringLoop t (i + 1) (cnt + 1) = Inr (int (length t) - 1, cnt + 1 + (int (length t) - (i + 1)))"
      by simp
    with lt c nq False show ?thesis
      by (subst stringLoop.simps) simp
  qed
qed

lemma forLoop_unterminated_string:
  assumes "0 \<le> scan_i sc" "scan_i sc + 2 < int (length t)"
    and q: "t ! nat (scan_i sc) = CHR 0x22"
    and nq: "CHR 0x22 \<notin> set (drop (nat (scan_i sc) + 1) t)"
  shows "forLoop t tables sc =
    Inr (sc\<lparr>scan_i := int (length t) - 1, scan_f := setForeground darkGreen (scan_f sc),
            scan_fc := paint (scan_i sc) (int (length t) - scan_i sc)
               (setForeground darkGreen (scan_f sc)) (scan_fc sc)\<rparr>)"
proof -
  let ?i = "scan_i sc"
  have c: "at' t ?i = Inr (CHR 0x22)" using assms(1,2) q by (simp add: at'_def)
  have d: "drop (nat (?i + 1)) t = drop (nat ?i + 1) t"
    using assms(1) by (simp add: nat_add_distrib)
  have sl: "stringLoop t (?i + 1) 1 = Inr (int (length t) - 1, 1 + (int (length t) - (?i + 1)))"
    using assms(1,2) nq by (intro stringLoop_unterminated) (simp_all add: d)
  have lit: "literals t (CHR 0x22) sc =
    Inr (Return (sc\<lparr>scan_i := int (length t) - 1, scan_f := setForeground darkGreen (scan_f sc),
            scan_fc := paint ?i (int (length t) - ?i)
               (setForeground darkGreen (scan_f sc)) (scan_fc sc)\<rparr>))"
    using assms(2) by (simp add: literals_def Let_def isNumber_def sl endOfBody_def)
  have wb: "whileBody t (CHR 0x22) sc = literals t (CHR 0x22) sc"
    by (simp add: whileBody_def Let_def)
  have wl: "whileNotLetter t sc = literals t (CHR 0x22) sc"
    unfolding lit by (subst whileNotLetter.simps) (simp add: c isLetter_def wb lit)
  show ?thesis
    using assms(2) by (subst forLoop.simps) (simp add: wl lit)
qed

lemma forLoop_short_string:
  assumes "0 \<le> scan_i sc" "scan_i sc < int (length t)" "scan_i sc + 2 \<ge> int (length t)"
    and q: "t ! nat (scan_i sc) = CHR 0x22"
  shows "forLoop t tables sc =
    Inr (sc\<lparr>scan_i := scan_i sc + 1, scan_f := setForeground darkGreen (scan_f sc)\<rparr>)"
proof -
  let ?i = "scan_i sc"
  have c: "at' t ?i = Inr (CHR 0x22)" using assms(1,2) q by (simp add: at'_def)
  have lit: "literals t (CHR 0x22) sc =
    Inr (Return (sc\<lparr>scan_i := ?i + 1, scan_f := setForeground darkGreen (scan_f sc)\<rparr>))"
    using assms(3) by (simp add: literals_def Let_def isNumber_def)
  have wb: "whileBody t (CHR 0x22) sc = literals t (CHR 0x22) sc"
    by (simp add: whileBody_def Let_def)
  have wl: "whileNotLetter t sc = literals t (CHR 0x22) sc"
    unfolding lit by (subst whileNotLetter.simps) (simp add: c isLetter_def wb lit)
  show ?thesis
    using assms(2) by (subst forLoop.simps) (simp add: wl lit)
qed

lemma scan_example_string:
  "forLoop (''int x = '' @ [CHR 0x22] @ ''unterminated'') loadCppData
     \<lparr>scan_i = 0, scan_f = f, scan_fc = replicate 21 f\<rparr> =
   Inr \<lparr>scan_i = 20, scan_f = setForeground darkGreen (setForeground darkBlue f),
        scan_fc = replicate 3 (setForeground darkBlue f) @ replicate 5 f
          @ replicate 13 (setForeground darkGreen (setForeground darkBlue f))\<rparr>"
  by (simp add: scan_simps eval_nat_numeral)

text \<open>
  C5. The scan of a line never reads a character outside the text: \<^verbatim>\<open>highlightSyntax\<close>
  returns a state for every text, never the error of an index out of range. On the text
  \<^verbatim>\<open>int x = "unterminated\<close> in a block of state \<open>CodeCpp\<close> it paints the type
  \<^verbatim>\<open>int\<close> and then, with the format of strings, the 13 characters from the opening
  quote to the end of the line. In general, when the scan stands on a double quote that at
  least two characters follow, none of them a double quote, it paints from the quote to
  the end of the line with the format of strings (a dark green foreground) and leaves the
  line; when fewer than two characters follow the quote, it leaves the line and paints
  nothing for the quote.
\<close>

theorem embedded_scanner_strings:
  "(\<exists>s'. highlightSyntax text s = Inr s') \<and>
   (currentBlockState s = CodeCpp \<and> length (formatChanges s) = 21 \<longrightarrow>
      highlightSyntax (''int x = '' @ [CHR 0x22] @ ''unterminated'') s =
        Inr (s\<lparr>formatChanges :=
               replicate 3 (setForeground darkBlue (formats s CodeBlock))
               @ replicate 5 (formats s CodeBlock)
               @ replicate 13 (setForeground darkGreen (formats s CodeBlock))\<rparr>)) \<and>
   (0 \<le> scan_i sc \<and> scan_i sc + 2 < int (length t) \<and> t ! nat (scan_i sc) = CHR 0x22 \<and>
    CHR 0x22 \<notin> set (drop (nat (scan_i sc) + 1) t) \<longrightarrow>
      forLoop t tables sc =
        Inr (sc\<lparr>scan_i := int (length t) - 1, scan_f := setForeground darkGreen (scan_f sc),
               scan_fc := paint (scan_i sc) (int (length t) - scan_i sc)
                  (setForeground darkGreen (scan_f sc)) (scan_fc sc)\<rparr>)) \<and>
   (0 \<le> scan_i sc \<and> scan_i sc < int (length t) \<and> int (length t) \<le> scan_i sc + 2 \<and>
    t ! nat (scan_i sc) = CHR 0x22 \<longrightarrow>
      forLoop t tables sc =
        Inr (sc\<lparr>scan_i := scan_i sc + 1, scan_f := setForeground darkGreen (scan_f sc)\<rparr>))"
proof (intro conjI impI)
  show "\<exists>s'. highlightSyntax text s = Inr s'"
    using highlightSyntax_ok[of "text" s] by blast
next
  assume "currentBlockState s = CodeCpp \<and> length (formatChanges s) = 21"
  then show "highlightSyntax (''int x = '' @ [CHR 0x22] @ ''unterminated'') s =
        Inr (s\<lparr>formatChanges :=
               replicate 3 (setForeground darkBlue (formats s CodeBlock))
               @ replicate 5 (formats s CodeBlock)
               @ replicate 13 (setForeground darkGreen (formats s CodeBlock))\<rparr>)"
    using scan_example_string[of "formats s CodeBlock"]
          paint_all[of "formatChanges s" 21 "formats s CodeBlock"]
    by (simp add: highlightSyntax_def Let_def setFormat_def setForeground_def)
next
  assume "0 \<le> scan_i sc \<and> scan_i sc + 2 < int (length t) \<and> t ! nat (scan_i sc) = CHR 0x22 \<and>
    CHR 0x22 \<notin> set (drop (nat (scan_i sc) + 1) t)"
  then show "forLoop t tables sc =
        Inr (sc\<lparr>scan_i := int (length t) - 1, scan_f := setForeground darkGreen (scan_f sc),
               scan_fc := paint (scan_i sc) (int (length t) - scan_i sc)
                  (setForeground darkGreen (scan_f sc)) (scan_fc sc)\<rparr>)"
    by (intro forLoop_unterminated_string) simp_all
next
  assume "0 \<le> scan_i sc \<and> scan_i sc < int (length t) \<and> int (length t) \<le> scan_i sc + 2 \<and>
    t ! nat (scan_i sc) = CHR 0x22"
  then show "forLoop t tables sc =
        Inr (sc\<lparr>scan_i := scan_i sc + 1, scan_f := setForeground darkGreen (scan_f sc)\<rparr>)"
    by (intro forLoop_short_string) simp_all
qed

text \<open>A block of state \<open>CodeCpp\<close> with the given text, ready to be scanned.\<close>

definition cppLine :: "string \<Rightarrow> highlighter" where
  "cppLine t =
     setUserState 1 CodeCpp
       ((newHighlighter [''```cpp'', t])
          \<lparr>currentBlock := 1, formatChanges := replicate (length t) QTextCharFormat0\<rparr>)"

theorem embedded_scanner_strings_witness:
  "currentBlockState (cppLine (''int x = '' @ [CHR 0x22] @ ''unterminated'')) = CodeCpp \<and>
   length (formatChanges (cppLine (''int x = '' @ [CHR 0x22] @ ''unterminated''))) = 21 \<and>
   highlightSyntax (''int x = '' @ [CHR 0x22] @ ''unterminated'')
       (cppLine (''int x = '' @ [CHR 0x22] @ ''unterminated'')) =
     Inr ((cppLine (''int x = '' @ [CHR 0x22] @ ''unterminated''))\<lparr>formatChanges :=
        replicate 3 (setForeground darkBlue (exampleFormats CodeBlock))
        @ replicate 5 (exampleFormats CodeBlock)
        @ replicate 13 (setForeground darkGreen (exampleFormats CodeBlock))\<rparr>) \<and>
   forLoop (''a = '' @ [CHR 0x22] @ ''bcd'') ([], [], [])
      \<lparr>scan_i = 4, scan_f = QTextCharFormat0, scan_fc = replicate 8 QTextCharFormat0\<rparr> =
     Inr \<lparr>scan_i = 7, scan_f = setForeground darkGreen QTextCharFormat0,
          scan_fc = paint 4 4 (setForeground darkGreen QTextCharFormat0)
             (replicate 8 QTextCharFormat0)\<rparr> \<and>
   forLoop (''x = '' @ [CHR 0x22] @ ''a'') ([], [], [])
      \<lparr>scan_i = 4, scan_f = QTextCharFormat0, scan_fc = replicate 6 QTextCharFormat0\<rparr> =
     Inr \<lparr>scan_i = 5, scan_f = setForeground darkGreen QTextCharFormat0,
          scan_fc = replicate 6 QTextCharFormat0\<rparr>"
proof -
  let ?ex = "''int x = '' @ [CHR 0x22] @ ''unterminated''"
  let ?s = "cppLine ?ex"
  let ?sc1 = "\<lparr>scan_i = 4, scan_f = QTextCharFormat0, scan_fc = replicate 8 QTextCharFormat0\<rparr>"
  let ?sc2 = "\<lparr>scan_i = 4, scan_f = QTextCharFormat0, scan_fc = replicate 6 QTextCharFormat0\<rparr>"
  have h1: "currentBlockState ?s = CodeCpp \<and> length (formatChanges ?s) = 21"
    by (simp add: cppLine_def currentBlockState_def isValid_def newHighlighter_def)
  have f: "formats ?s = exampleFormats"
    by (simp add: cppLine_def newHighlighter_def)
  have h2: "0 \<le> scan_i ?sc1 \<and> scan_i ?sc1 + 2 < int (length (''a = '' @ [CHR 0x22] @ ''bcd'')) \<and>
    (''a = '' @ [CHR 0x22] @ ''bcd'') ! nat (scan_i ?sc1) = CHR 0x22 \<and>
    CHR 0x22 \<notin> set (drop (nat (scan_i ?sc1) + 1) (''a = '' @ [CHR 0x22] @ ''bcd''))"
    by simp
  have h3: "0 \<le> scan_i ?sc2 \<and> scan_i ?sc2 < int (length (''x = '' @ [CHR 0x22] @ ''a'')) \<and>
    int (length (''x = '' @ [CHR 0x22] @ ''a'')) \<le> scan_i ?sc2 + 2 \<and>
    (''x = '' @ [CHR 0x22] @ ''a'') ! nat (scan_i ?sc2) = CHR 0x22"
    by simp
  note th = embedded_scanner_strings
  from th[of "[]" ?s ?sc1 "''a = '' @ [CHR 0x22] @ ''bcd''" "([], [], [])"] h1 h2
  have 1: "highlightSyntax ?ex ?s =
        Inr (?s\<lparr>formatChanges :=
               replicate 3 (setForeground darkBlue (formats ?s CodeBlock))
               @ replicate 5 (formats ?s CodeBlock)
               @ replicate 13 (setForeground darkGreen (formats ?s CodeBlock))\<rparr>)"
    and 2: "forLoop (''a = '' @ [CHR 0x22] @ ''bcd'') ([], [], []) ?sc1 =
        Inr (?sc1\<lparr>scan_i := int (length (''a = '' @ [CHR 0x22] @ ''bcd'')) - 1,
               scan_f := setForeground darkGreen (scan_f ?sc1),
               scan_fc := paint (scan_i ?sc1) (int (length (''a = '' @ [CHR 0x22] @ ''bcd'')) - scan_i ?sc1)
                  (setForeground darkGreen (scan_f ?sc1)) (scan_fc ?sc1)\<rparr>)"
    by blast+
  from th[of "[]" ?s ?sc2 "''x = '' @ [CHR 0x22] @ ''a''" "([], [], [])"] h3
  have 3: "forLoop (''x = '' @ [CHR 0x22] @ ''a'') ([], [], []) ?sc2 =
        Inr (?sc2\<lparr>scan_i := scan_i ?sc2 + 1, scan_f := setForeground darkGreen (scan_f ?sc2)\<rparr>)"
    by blast
  from h1 1 2 3 show ?thesis
    unfolding f by simp
qed

text \<open>
  In the text \<^verbatim>\<open>x = "a\<close> one character follows the opening quote: the scan stops at
  the quote, and all six characters keep the format of code blocks.
\<close>

theorem unterminated_string_counterexample:
  "highlightSyntax (''x = '' @ [CHR 0x22] @ ''a'') (cppLine (''x = '' @ [CHR 0x22] @ ''a'')) =
     Inr ((cppLine (''x = '' @ [CHR 0x22] @ ''a''))
            \<lparr>formatChanges := replicate 6 (exampleFormats CodeBlock)\<rparr>) \<and>
   currentBlockState (cppLine (''x = '' @ [CHR 0x22] @ ''a'')) = CodeCpp \<and>
   setForeground darkGreen (exampleFormats CodeBlock) \<noteq> exampleFormats CodeBlock"
  by (simp add: highlightSyntax_def cppLine_def currentBlockState_def isValid_def
      newHighlighter_def setFormat_def scan_simps eval_nat_numeral
      setForeground_def exampleFormats_def QTextCharFormat0_def HighlighterState_defs)













end
